theory Spec2Isabelle
  imports Complex_Main "HOL-Library.Sublist" "HOL-Library.AList"
begin

section \<open>Python strings\<close>

text \<open>
  A Python \<^verbatim>\<open>str\<close> is a sequence of Unicode code points. It is modelled as a
  \<^typ>\<open>string\<close> whose characters are read as the code points U+0000 to U+00FF, so
  \<^term>\<open>length\<close> is Python's \<^verbatim>\<open>len\<close>. The classification functions below are
  Python's own on that range (\<^verbatim>\<open>str.isspace\<close>, \<^verbatim>\<open>str.isalnum\<close>,
  \<^verbatim>\<open>str.isdigit\<close>, \<^verbatim>\<open>str.lower\<close>); code points above U+00FF are outside
  this model. \<^verbatim>\<open>sanitize_filename\<close>, whose properties depend on them, is modelled
  over all code points in its own section.
\<close>

definition isspace :: "char \<Rightarrow> bool" where
  "isspace c = (c \<in> set [CHR 0x09, CHR 0x0A, CHR 0x0B, CHR 0x0C, CHR 0x0D,
                           CHR 0x1C, CHR 0x1D, CHR 0x1E, CHR 0x1F, CHR 0x20,
                           CHR 0x85, CHR 0xA0])"

definition isdigit :: "char \<Rightarrow> bool" where
  "isdigit c = (let n = (of_char c :: nat) in
      (48 \<le> n \<and> n \<le> 57) \<or> n = 178 \<or> n = 179 \<or> n = 185)"

definition isalnum :: "char \<Rightarrow> bool" where
  "isalnum c = (let n = (of_char c :: nat) in
      (48 \<le> n \<and> n \<le> 57) \<or> (65 \<le> n \<and> n \<le> 90) \<or> (97 \<le> n \<and> n \<le> 122) \<or>
      n = 170 \<or> n = 178 \<or> n = 179 \<or> n = 181 \<or> n = 185 \<or> n = 186 \<or>
      (188 \<le> n \<and> n \<le> 190) \<or> (192 \<le> n \<and> n \<le> 214) \<or> (216 \<le> n \<and> n \<le> 246) \<or>
      248 \<le> n)"

definition lower_char :: "char \<Rightarrow> char" where
  "lower_char c = (let n = (of_char c :: nat) in
      if (65 \<le> n \<and> n \<le> 90) \<or> (192 \<le> n \<and> n \<le> 214) \<or> (216 \<le> n \<and> n \<le> 222)
      then char_of (n + 32) else c)"

definition lower :: "string \<Rightarrow> string" where
  "lower s = map lower_char s"

definition lstrip :: "string \<Rightarrow> string" where
  "lstrip s = dropWhile isspace s"

definition rstrip :: "string \<Rightarrow> string" where
  "rstrip s = rev (dropWhile isspace (rev s))"

definition strip :: "string \<Rightarrow> string" where
  "strip s = rstrip (lstrip s)"

text \<open>\<^verbatim>\<open>s.rstrip('_')\<close>: the trailing run of one given character is removed.\<close>

definition rstrip_char :: "'a \<Rightarrow> 'a list \<Rightarrow> 'a list" where
  "rstrip_char d s = rev (dropWhile (\<lambda>c. c = d) (rev s))"

text \<open>\<^verbatim>\<open>s.replace(a, b)\<close> for single characters.\<close>

definition replace_char :: "'a \<Rightarrow> 'a \<Rightarrow> 'a list \<Rightarrow> 'a list" where
  "replace_char a b s = map (\<lambda>c. if c = a then b else c) s"

text \<open>
  \<^verbatim>\<open>s.split(sep)\<close> for a one-character separator: every occurrence splits, empty
  pieces are kept, and the result is never empty.
\<close>

fun split_on :: "char \<Rightarrow> string \<Rightarrow> string list" where
  "split_on d [] = [[]]"
| "split_on d (c # cs) =
     (if c = d then [] # split_on d cs
      else (case split_on d cs of
              [] \<Rightarrow> [[c]]
            | w # ws \<Rightarrow> (c # w) # ws))"

text \<open>\<^verbatim>\<open>s.split(sep, 1)\<close>: at most one split, at the first occurrence.\<close>

definition split_once :: "char \<Rightarrow> string \<Rightarrow> string list" where
  "split_once d s =
     (if d \<in> set s then [takeWhile (\<lambda>c. c \<noteq> d) s, tl (dropWhile (\<lambda>c. c \<noteq> d) s)]
      else [s])"

text \<open>
  \<^verbatim>\<open>s.split()\<close>: the maximal runs of non-whitespace characters, in order; no
  piece is empty.
\<close>

fun split_ws_aux :: "string \<Rightarrow> string \<Rightarrow> string list" where
  "split_ws_aux w [] = (if w = [] then [] else [rev w])"
| "split_ws_aux w (c # cs) =
     (if isspace c then (if w = [] then split_ws_aux [] cs else rev w # split_ws_aux [] cs)
      else split_ws_aux (c # w) cs)"

definition split_ws :: "string \<Rightarrow> string list" where
  "split_ws s = split_ws_aux [] s"

text \<open>\<^verbatim>\<open>t in s\<close> on strings is the substring test, \<^term>\<open>sublist t s\<close>.\<close>

text \<open>
  \<^verbatim>\<open>xs[:n]\<close> for any integer \<^verbatim>\<open>n\<close>: a negative bound counts from the end.
\<close>

definition slice_to :: "int \<Rightarrow> 'a list \<Rightarrow> 'a list" where
  "slice_to n xs = (if 0 \<le> n then take (nat n) xs else take (length xs - nat (- n)) xs)"

section \<open>Configuration (config.py)\<close>

text \<open>
  The settings read by the functions below; each comes from the environment, with the
  default given in \<open>default_config\<close>.
\<close>

record config =
  TARGET_TOTAL_COMMENTS :: int
  MAX_RETRY_ATTEMPTS :: int
  NUM_QUERY_VARIATIONS :: int

definition default_config :: config where
  "default_config =
     \<lparr> TARGET_TOTAL_COMMENTS = 50000, MAX_RETRY_ATTEMPTS = 3, NUM_QUERY_VARIATIONS = 20 \<rparr>"

text \<open>\<^verbatim>\<open>d.get(k, default)\<close> on an optional field, and \<^verbatim>\<open>x if x is not None else default\<close>.\<close>

definition get_or :: "'a option \<Rightarrow> 'a \<Rightarrow> 'a" where
  "get_or v d = (case v of None \<Rightarrow> d | Some x \<Rightarrow> x)"

section \<open>Query validation (utils/helpers.py)\<close>

definition invalid_chars :: "char list" where
  "invalid_chars = [CHR ''<'', CHR ''>'', CHR 0x22, CHR 0x27, CHR ''&'']"

definition validate_query :: "string \<Rightarrow> bool \<times> string" where
  "validate_query query =
     (if query = [] \<or> strip query = [] then (False, ''Query cannot be empty'')
      else let query = strip query in
        if length query < 2 then (False, ''Query must be at least 2 characters long'')
        else if length query > 500 then (False, ''Query must be less than 500 characters'')
        else if list_ex (\<lambda>c. c \<in> set invalid_chars) query
          then (False, ''Query contains invalid characters'')
        else (True, ''Query is valid''))"

section \<open>Filename sanitisation (utils/file_utils.py, config.py)\<close>

text \<open>
  \<^verbatim>\<open>sanitize_filename\<close> receives the user's query, any Python \<^verbatim>\<open>str\<close>, and
  \<^verbatim>\<open>str.lower\<close> can change the number of code points. Here a string is the list of its
  code points, and the built-ins the function calls are taken from a table:
  \<^verbatim>\<open>c.isspace()\<close> (which decides what \<^verbatim>\<open>strip\<close> removes), \<^verbatim>\<open>c.isalnum()\<close>, and
  \<^verbatim>\<open>s.lower()\<close> on a whole string (the lowercase of a character can depend on its
  neighbours).
\<close>

type_synonym codepoint = nat

type_synonym ustr = "codepoint list"

record unicode =
  u_isspace :: "codepoint \<Rightarrow> bool"
  u_isalnum :: "codepoint \<Rightarrow> bool"
  u_lower :: "ustr \<Rightarrow> ustr"

text \<open>The code points of an ASCII literal.\<close>

definition ustr :: "string \<Rightarrow> ustr" where
  "ustr s = map of_char s"

text \<open>\<^verbatim>\<open>s.strip()\<close> over a table.\<close>

definition ustrip :: "unicode \<Rightarrow> ustr \<Rightarrow> ustr" where
  "ustrip U s = rev (dropWhile (u_isspace U) (rev (dropWhile (u_isspace U) s)))"

text \<open>
  \<^verbatim>\<open>Config.MAX_FILENAME_LENGTH\<close> is read from the environment and defaults to 50;
  \<^verbatim>\<open>sanitize_filename\<close> takes the configured value as an argument.
\<close>

definition MAX_FILENAME_LENGTH :: int where
  "MAX_FILENAME_LENGTH = 50"

text \<open>
  One pass of \<^verbatim>\<open>s.replace('__', '_')\<close>: non-overlapping matches, left to right. The
  underscore is U+005F, the hyphen U+002D, the space U+0020.
\<close>

fun replace_dunder :: "ustr \<Rightarrow> ustr" where
  "replace_dunder (a # b # cs) =
     (if a = 0x5F \<and> b = 0x5F then 0x5F # replace_dunder cs
      else a # replace_dunder (b # cs))"
| "replace_dunder cs = cs"

lemma length_replace_dunder_le: "length (replace_dunder s) \<le> length s"
  by (induction s rule: replace_dunder.induct) auto

lemma length_replace_dunder_less:
  "sublist [0x5F, 0x5F] s \<Longrightarrow> length (replace_dunder s) < length s"
proof (induction s rule: replace_dunder.induct)
  case (1 a b cs)
  then show ?case
    using length_replace_dunder_le [of cs]
    by (auto simp: sublist_code prefix_code)
qed (auto simp: sublist_code prefix_code)

text \<open>The loop \<^verbatim>\<open>while '__' in sanitized: sanitized = sanitized.replace('__', '_')\<close>.\<close>

function collapse_underscores :: "ustr \<Rightarrow> ustr" where
  "collapse_underscores s =
     (if sublist [0x5F, 0x5F] s then collapse_underscores (replace_dunder s) else s)"
  by pat_completeness auto
termination
  by (relation "measure length") (auto simp: length_replace_dunder_less)

declare collapse_underscores.simps [simp del]

text \<open>The characters the generator expression keeps: \<^verbatim>\<open>c.isalnum() or c in '_-'\<close>.\<close>

definition keep_char :: "unicode \<Rightarrow> codepoint \<Rightarrow> bool" where
  "keep_char U c = (u_isalnum U c \<or> c \<in> set [0x5F, 0x2D])"

definition sanitize_filename :: "unicode \<Rightarrow> int \<Rightarrow> ustr \<Rightarrow> ustr" where
  "sanitize_filename U max_length filename =
     (if filename = [] \<or> ustrip U filename = [] then ustr ''unknown_file''
      else
        let sanitized = replace_char 0x20 0x5F (ustrip U filename);
            sanitized = filter (keep_char U) sanitized;
            sanitized = collapse_underscores sanitized;
            sanitized = (if int (length sanitized) > max_length
                         then slice_to max_length sanitized else sanitized);
            sanitized = rstrip_char 0x5F sanitized;
            sanitized = (if sanitized = [] then ustr ''file'' else sanitized)
        in u_lower U sanitized)"

text \<open>
  What is used of Python's built-ins. U+0130 (capital I with dot above) is the one code
  point whose lowercase is two code points; on a string without it \<^verbatim>\<open>lower\<close> keeps the
  length, maps alphanumerics to alphanumerics position by position, neither makes nor
  removes an underscore or a hyphen, and returns a string that \<^verbatim>\<open>lower\<close> leaves
  unchanged. No alphanumeric is whitespace; the space is whitespace, underscore and hyphen
  are not. On ASCII, the alphanumerics are the digits and the letters, and \<^verbatim>\<open>lower\<close>
  moves A-Z to a-z.
\<close>

definition ascii_lower :: "codepoint \<Rightarrow> codepoint" where
  "ascii_lower c = (if 65 \<le> c \<and> c \<le> 90 then c + 32 else c)"

definition python_tables :: "unicode \<Rightarrow> bool" where
  "python_tables U =
     ((\<forall>c. u_isalnum U c \<longrightarrow> \<not> u_isspace U c) \<and>
      u_isspace U 0x20 \<and> \<not> u_isspace U 0x5F \<and> \<not> u_isspace U 0x2D \<and>
      (\<forall>c < 128. u_isalnum U c =
          ((48 \<le> c \<and> c \<le> 57) \<or> (65 \<le> c \<and> c \<le> 90) \<or> (97 \<le> c \<and> c \<le> 122))) \<and>
      (\<forall>s. (\<forall>c\<in>set s. c < 128) \<longrightarrow> u_lower U s = map ascii_lower s) \<and>
      (\<forall>s. 0x130 \<notin> set s \<longrightarrow>
          length (u_lower U s) = length s \<and>
          0x130 \<notin> set (u_lower U s) \<and>
          u_lower U (u_lower U s) = u_lower U s \<and>
          (\<forall>i < length s.
             (u_isalnum U (s ! i) \<longrightarrow> u_isalnum U (u_lower U s ! i)) \<and>
             (u_lower U s ! i = 0x5F) = (s ! i = 0x5F) \<and>
             (u_lower U s ! i = 0x2D) = (s ! i = 0x2D))))"

text \<open>
  A table to run the function on: Python's \<^verbatim>\<open>isspace\<close> on every code point, and
  Python's \<^verbatim>\<open>isalnum\<close> and \<^verbatim>\<open>lower\<close> on U+0000 to U+00FF, U+0130 and U+0307
  (combining dot above); the alphanumerics and case pairs of the other code points are
  not tabulated.
\<close>

definition tab_isspace :: "codepoint \<Rightarrow> bool" where
  "tab_isspace c = (c \<in> set [0x09, 0x0A, 0x0B, 0x0C, 0x0D, 0x1C, 0x1D, 0x1E, 0x1F, 0x20,
      0x85, 0xA0, 0x1680, 0x2000, 0x2001, 0x2002, 0x2003, 0x2004, 0x2005, 0x2006, 0x2007,
      0x2008, 0x2009, 0x200A, 0x2028, 0x2029, 0x202F, 0x205F, 0x3000])"

definition tab_isalnum :: "codepoint \<Rightarrow> bool" where
  "tab_isalnum n =
     ((48 \<le> n \<and> n \<le> 57) \<or> (65 \<le> n \<and> n \<le> 90) \<or> (97 \<le> n \<and> n \<le> 122) \<or>
      n = 170 \<or> n = 178 \<or> n = 179 \<or> n = 181 \<or> n = 185 \<or> n = 186 \<or>
      (188 \<le> n \<and> n \<le> 190) \<or> (192 \<le> n \<and> n \<le> 214) \<or> (216 \<le> n \<and> n \<le> 246) \<or>
      (248 \<le> n \<and> n \<le> 255) \<or> n = 0x130)"

definition tab_lower_char :: "codepoint \<Rightarrow> ustr" where
  "tab_lower_char n =
     (if (65 \<le> n \<and> n \<le> 90) \<or> (192 \<le> n \<and> n \<le> 214) \<or> (216 \<le> n \<and> n \<le> 222)
      then [n + 32]
      else if n = 0x130 then [0x69, 0x307]
      else [n])"

definition tabulated :: unicode where
  "tabulated =
     \<lparr> u_isspace = tab_isspace, u_isalnum = tab_isalnum,
       u_lower = (\<lambda>s. concat (map tab_lower_char s)) \<rparr>"

text \<open>What \<open>tab_lower_char\<close> does to a code point other than U+0130.\<close>

definition tab_lower1 :: "codepoint \<Rightarrow> codepoint" where
  "tab_lower1 n =
     (if (65 \<le> n \<and> n \<le> 90) \<or> (192 \<le> n \<and> n \<le> 214) \<or> (216 \<le> n \<and> n \<le> 222)
      then n + 32 else n)"

section \<open>Content items and unique comments (services/comment_fetcher.py)\<close>

text \<open>
  The dictionaries the fetchers exchange, as records. A key read with \<^verbatim>\<open>d['k']\<close> is a
  field; a key read with \<^verbatim>\<open>d.get('k', default)\<close> is an optional field, \<open>None\<close> when
  the key is absent.
\<close>

record reply =
  r_author :: string
  r_text :: string
  r_likes :: "int option"
  r_published_at :: string
  r_author_profile :: "string option"

record comment =
  c_author :: string
  c_text :: string
  c_likes :: "int option"
  c_published_at :: string
  c_author_profile :: "string option"
  c_replies :: "reply list option"

record info =
  i_title :: "string option"
  i_subreddit :: "string option"

record video =
  v_source :: "string option"
  v_comments :: "comment list"
  v_video_info :: "info option"
  v_post_info :: "info option"

record unique_reply =
  ur_author :: string
  ur_text :: string
  ur_likes :: int
  ur_published_at :: string
  ur_author_profile :: string
  ur_source :: string

record unique_comment =
  uc_author :: string
  uc_text :: string
  uc_likes :: int
  uc_published_at :: string
  uc_author_profile :: string
  uc_source :: string
  uc_video_title :: string
  uc_subreddit :: string
  uc_replies :: "unique_reply list"

text \<open>\<^verbatim>\<open>video.get('source', 'unknown')\<close>\<close>

definition source_of :: "video \<Rightarrow> string" where
  "source_of v = get_or (v_source v) ''unknown''"

text \<open>
  \<^verbatim>\<open>video.get('video_info', {}).get('title',
      video.get('post_info', {}).get('title', 'Unknown'))\<close>
\<close>

definition video_title_of :: "video \<Rightarrow> string" where
  "video_title_of v =
     get_or (case v_video_info v of None \<Rightarrow> None | Some i \<Rightarrow> i_title i)
       (get_or (case v_post_info v of None \<Rightarrow> None | Some i \<Rightarrow> i_title i) ''Unknown'')"

text \<open>\<^verbatim>\<open>video.get('post_info', {}).get('subreddit', '')\<close>\<close>

definition subreddit_of :: "video \<Rightarrow> string" where
  "subreddit_of v = get_or (case v_post_info v of None \<Rightarrow> None | Some i \<Rightarrow> i_subreddit i) ''''"

text \<open>
  The dictionary \<^verbatim>\<open>unique_comments\<close> keeps insertion order; it is an association list
  from the trimmed text to the entry, read with \<^term>\<open>map_of\<close> and written with
  \<^term>\<open>AList.update\<close> (in place when the key exists, at the end otherwise).
\<close>

type_synonym unique_dict = "(string \<times> unique_comment) list"

definition new_unique_comment :: "video \<Rightarrow> string \<Rightarrow> comment \<Rightarrow> string \<Rightarrow> unique_comment" where
  "new_unique_comment video source comment comment_text =
     \<lparr> uc_author = c_author comment,
       uc_text = comment_text,
       uc_likes = get_or (c_likes comment) 0,
       uc_published_at = c_published_at comment,
       uc_author_profile = get_or (c_author_profile comment) '''',
       uc_source = source,
       uc_video_title = video_title_of video,
       uc_subreddit = subreddit_of video,
       uc_replies = [] \<rparr>"

definition new_unique_reply :: "string \<Rightarrow> reply \<Rightarrow> string \<Rightarrow> unique_reply" where
  "new_unique_reply source reply reply_text =
     \<lparr> ur_author = r_author reply,
       ur_text = reply_text,
       ur_likes = get_or (r_likes reply) 0,
       ur_published_at = r_published_at reply,
       ur_author_profile = get_or (r_author_profile reply) '''',
       ur_source = source \<rparr>"

text \<open>
  The inner loop over one comment's replies. \<open>existing_replies\<close> is the list of texts
  computed once before the loop; the loop appends to the entry's reply list \<open>rs\<close> and
  counts in \<open>total_replies\<close>.
\<close>

fun add_replies :: "string \<Rightarrow> string list \<Rightarrow> reply list \<Rightarrow> unique_reply list \<times> int
    \<Rightarrow> unique_reply list \<times> int" where
  "add_replies source existing_replies [] (rs, total_replies) = (rs, total_replies)"
| "add_replies source existing_replies (reply # rest) (rs, total_replies) =
     (let reply_text = strip (r_text reply) in
      if reply_text \<noteq> [] \<and> reply_text \<notin> set existing_replies \<and> length reply_text > 3
      then add_replies source existing_replies rest
             (rs @ [new_unique_reply source reply reply_text], total_replies + 1)
      else add_replies source existing_replies rest (rs, total_replies))"

text \<open>The body of the loop over one content item's comments.\<close>

definition process_comment :: "video \<Rightarrow> string \<Rightarrow> unique_dict \<times> int \<times> int \<Rightarrow> comment
    \<Rightarrow> unique_dict \<times> int \<times> int" where
  "process_comment video source st comment =
     (case st of (unique_comments, total_comments, total_replies) \<Rightarrow>
      let comment_text = strip (c_text comment) in
      if comment_text = [] \<or> length comment_text < 3 then st
      else
        let (unique_comments, total_comments) =
              (if map_of unique_comments comment_text = None
               then (AList.update comment_text
                       (new_unique_comment video source comment comment_text) unique_comments,
                     total_comments + 1)
               else (unique_comments, total_comments))
        in (case map_of unique_comments comment_text of
              None \<Rightarrow> (unique_comments, total_comments, total_replies)
            | Some entry \<Rightarrow>
                let existing_replies = map ur_text (uc_replies entry);
                    (rs, total_replies) =
                       add_replies source existing_replies (get_or (c_replies comment) [])
                         (uc_replies entry, total_replies)
                in (AList.update comment_text (entry\<lparr>uc_replies := rs\<rparr>) unique_comments,
                    total_comments, total_replies)))"

definition process_video :: "unique_dict \<times> int \<times> int \<Rightarrow> video \<Rightarrow> unique_dict \<times> int \<times> int" where
  "process_video st video = foldl (process_comment video (source_of video)) st (v_comments video)"

definition get_unique_comments_unified :: "video list \<Rightarrow> unique_comment list \<times> int \<times> int" where
  "get_unique_comments_unified videos_data =
     (case foldl process_video ([], 0, 0) videos_data of
        (unique_comments, total_comments, total_replies) \<Rightarrow>
          (map snd unique_comments, total_comments, total_replies))"

text \<open>
  Notions used to state and prove the properties below: a content item without the
  comments whose trimmed text is shorter than 3 characters; the key a comment contributes
  to the dictionary; and the shape of a well-formed dictionary entry.
\<close>

definition drop_short :: "video \<Rightarrow> video" where
  "drop_short v = v\<lparr>v_comments := filter (\<lambda>c. 3 \<le> length (strip (c_text c))) (v_comments v)\<rparr>"

definition kept_text :: "comment \<Rightarrow> string set" where
  "kept_text c = (if 3 \<le> length (strip (c_text c)) then {strip (c_text c)} else {})"

definition entry_ok :: "string \<times> unique_comment \<Rightarrow> bool" where
  "entry_ok p = (uc_text (snd p) = fst p \<and> 3 \<le> length (fst p) \<and>
      (\<forall>r\<in>set (uc_replies (snd p)). 3 < length (ur_text r)))"

text \<open>Sample content items for concrete runs.\<close>

definition sample_reply :: "string \<Rightarrow> string \<Rightarrow> reply" where
  "sample_reply author text =
     \<lparr> r_author = author, r_text = text, r_likes = None, r_published_at = ''2025-01-01'',
       r_author_profile = None \<rparr>"

definition sample_comment :: "string \<Rightarrow> string \<Rightarrow> reply list \<Rightarrow> comment" where
  "sample_comment author text replies =
     \<lparr> c_author = author, c_text = text, c_likes = Some 1, c_published_at = ''2025-01-01'',
       c_author_profile = None, c_replies = Some replies \<rparr>"

definition sample_video :: "comment list \<Rightarrow> video" where
  "sample_video comments =
     \<lparr> v_source = Some ''youtube'', v_comments = comments, v_video_info = None,
       v_post_info = None \<rparr>"

definition sample_videos :: "video list" where
  "sample_videos =
     [sample_video [sample_comment ''ann'' ''no'' [sample_reply ''bob'' ''agreed''],
                    sample_comment ''cy'' '' wow '' [sample_reply ''dee'' ''yes'',
                                                    sample_reply ''eve'' ''yess'']]]"

section \<open>Fetching with retries (services/comment_fetcher.py, config.py)\<close>

text \<open>
  A comment as the Reddit service returns it: the comment fields and the post it
  belongs to.
\<close>

record reddit_comment = comment +
  rc_post_title :: string
  rc_subreddit :: string

text \<open>
  The two external services. A call either returns its list or raises; \<open>Inl msg\<close> is
  an exception (or a timeout of the future) whose \<^verbatim>\<open>str(e)\<close> is \<open>msg\<close>.
\<close>

record services =
  search_and_get_comments :: "string \<Rightarrow> int \<Rightarrow> int \<Rightarrow> string + video list"
  get_comments_parallel :: "string \<Rightarrow> int \<Rightarrow> string + reddit_comment list"

text \<open>The dictionary a successful fetch returns.\<close>

record fetched =
  f_source :: string
  f_videos :: "video list"
  f_total_comments :: int

definition fetch_youtube :: "services \<Rightarrow> string \<Rightarrow> int \<Rightarrow> int \<Rightarrow> int \<Rightarrow> string + fetched" where
  "fetch_youtube sv query attempt max_videos comments_per_video =
     (let video_count = max_videos + (attempt - 1) * 10;
          comments_per_video = comments_per_video + (attempt - 1) * 30
      in case search_and_get_comments sv query video_count comments_per_video of
           Inl e \<Rightarrow> Inl e
         | Inr videos_with_comments \<Rightarrow>
             if videos_with_comments = [] then Inl ''No YouTube videos found''
             else Inr \<lparr> f_source = ''youtube'', f_videos = videos_with_comments,
                        f_total_comments =
                          sum_list (map (\<lambda>v. int (length (v_comments v))) videos_with_comments) \<rparr>)"

definition reddit_post :: "reddit_comment \<Rightarrow> video" where
  "reddit_post comment =
     \<lparr> v_source = Some ''reddit'',
       v_comments = [comment.truncate comment],
       v_video_info = None,
       v_post_info = Some \<lparr> i_title = Some (rc_post_title comment),
                              i_subreddit = Some (rc_subreddit comment) \<rparr> \<rparr>"

definition fetch_reddit :: "services \<Rightarrow> string \<Rightarrow> int \<Rightarrow> int \<Rightarrow> string + fetched" where
  "fetch_reddit sv query attempt comments_limit =
     (let reddit_limit = comments_limit + (attempt - 1) * 1000
      in case get_comments_parallel sv query reddit_limit of
           Inl e \<Rightarrow> Inl e
         | Inr reddit_comments \<Rightarrow>
             Inr \<lparr> f_source = ''reddit'', f_videos = map reddit_post reddit_comments,
                   f_total_comments = int (length reddit_comments) \<rparr>)"

text \<open>
  The variables of the retry loop, as fields prefixed with \<open>ls_\<close>. \<^verbatim>\<open>errors\<close> is
  assigned only inside the loop body, so it is unbound (\<open>None\<close>) until the body has run.
  \<open>ls_iterations\<close> is not a variable of the source: it counts the executions of the loop
  body.
\<close>

record loop_state =
  ls_all_videos :: "video list"
  ls_total_comments :: int
  ls_total_replies :: int
  ls_attempt :: int
  ls_sources_used :: "string list"
  ls_errors :: "(string \<times> string) list option"
  ls_iterations :: nat

text \<open>The number of replies under the comments of the given content items.\<close>

definition count_replies :: "video list \<Rightarrow> int" where
  "count_replies videos =
     sum_list (map (\<lambda>video.
        sum_list (map (\<lambda>comment. int (length (get_or (c_replies comment) [])))
                      (v_comments video))) videos)"

text \<open>One execution of the loop body, up to the test that decides between the exits.\<close>

definition attempt_body :: "services \<Rightarrow> string \<Rightarrow> loop_state \<Rightarrow> loop_state" where
  "attempt_body sv query st =
     (let results = ([] :: (string \<times> fetched) list);
          errors = ([] :: (string \<times> string) list);
          sources_used = ls_sources_used st;
          (results, errors, sources_used) =
             (case fetch_youtube sv query (ls_attempt st) 20 150 of
                Inr yt_result \<Rightarrow>
                  (AList.update ''youtube'' yt_result results, errors, sources_used @ [''youtube''])
              | Inl e \<Rightarrow> (results, AList.update ''youtube'' e errors, sources_used));
          (results, errors, sources_used) =
             (case fetch_reddit sv query (ls_attempt st) 3000 of
                Inr reddit_result \<Rightarrow>
                  (AList.update ''reddit'' reddit_result results, errors, sources_used @ [''reddit''])
              | Inl e \<Rightarrow> (results, AList.update ''reddit'' e errors, sources_used));
          attempt_videos = [];
          attempt_comments = 0;
          (attempt_videos, attempt_comments) =
             (case map_of results ''youtube'' of
                Some r \<Rightarrow> (attempt_videos @ f_videos r, attempt_comments + f_total_comments r)
              | None \<Rightarrow> (attempt_videos, attempt_comments));
          (attempt_videos, attempt_comments) =
             (case map_of results ''reddit'' of
                Some r \<Rightarrow> (attempt_videos @ f_videos r, attempt_comments + f_total_comments r)
              | None \<Rightarrow> (attempt_videos, attempt_comments));
          attempt_replies = count_replies attempt_videos
      in st \<lparr> ls_all_videos := ls_all_videos st @ attempt_videos,
              ls_total_comments := ls_total_comments st + attempt_comments,
              ls_total_replies := ls_total_replies st + attempt_replies,
              ls_sources_used := sources_used,
              ls_errors := Some errors,
              ls_iterations := Suc (ls_iterations st) \<rparr>)"

text \<open>
  The \<^verbatim>\<open>while\<close> loop. When the target is reached the body leaves by \<^verbatim>\<open>break\<close>,
  before \<^verbatim>\<open>attempt += 1\<close>; otherwise the counter is incremented and the condition is
  tested again.
\<close>

function fetch_loop :: "services \<Rightarrow> string \<Rightarrow> int \<Rightarrow> int \<Rightarrow> loop_state \<Rightarrow> loop_state" where
  "fetch_loop sv query min_total_comments max_retries st =
     (if ls_total_comments st + ls_total_replies st < min_total_comments \<and> ls_attempt st \<le> max_retries
      then
        let st = attempt_body sv query st;
            current_total = ls_total_comments st + ls_total_replies st
        in if current_total \<ge> min_total_comments then st
           else fetch_loop sv query min_total_comments max_retries
                  (st \<lparr> ls_attempt := ls_attempt st + 1 \<rparr>)
      else st)"
  by pat_completeness auto
termination
  by (relation "measure (\<lambda>(sv, query, min_total_comments, max_retries, st).
        nat (max_retries + 1 - ls_attempt st))")
     (auto simp: attempt_body_def Let_def split: sum.splits option.splits prod.splits)

declare fetch_loop.simps [simp del]

datatype py_error = UnboundLocalError

record fetch_result =
  fr_videos :: "video list"
  fr_total_comments :: int
  fr_total_replies :: int
  fr_grand_total :: int
  fr_sources :: "string list"
  fr_errors :: "(string \<times> string) list"
  fr_target_achieved :: bool
  fr_attempts_made :: int
  fr_iterations :: nat

text \<open>
  \<^verbatim>\<open>fetch_all_comments_parallel(query, min_total_comments=None, max_retries=None)\<close>.
  The returned dictionary reads \<^verbatim>\<open>errors\<close>, which raises when the loop body never ran.
  \<open>fr_iterations\<close> carries the count of loop-body executions next to the fields of the
  source.
\<close>

definition fetch_all_comments_parallel ::
    "config \<Rightarrow> services \<Rightarrow> string \<Rightarrow> int option \<Rightarrow> int option \<Rightarrow> py_error + fetch_result" where
  "fetch_all_comments_parallel cfg sv query min_total_comments max_retries =
     (let min_total_comments = get_or min_total_comments (TARGET_TOTAL_COMMENTS cfg);
          max_retries = get_or max_retries (MAX_RETRY_ATTEMPTS cfg);
          st = fetch_loop sv query min_total_comments max_retries
                 \<lparr> ls_all_videos = [], ls_total_comments = 0, ls_total_replies = 0, ls_attempt = 1,
                   ls_sources_used = [], ls_errors = None, ls_iterations = 0 \<rparr>
      in case ls_errors st of
           None \<Rightarrow> Inl UnboundLocalError
         | Some errs \<Rightarrow>
             Inr \<lparr> fr_videos = ls_all_videos st,
                   fr_total_comments = ls_total_comments st,
                   fr_total_replies = ls_total_replies st,
                   fr_grand_total = ls_total_comments st + ls_total_replies st,
                   fr_sources = ls_sources_used st,
                   fr_errors = errs,
                   fr_target_achieved = (ls_total_comments st + ls_total_replies st \<ge> min_total_comments),
                   fr_attempts_made = ls_attempt st - 1,
                   fr_iterations = ls_iterations st \<rparr>)"

text \<open>
  Sample services: the video search always returns one video with one comment and no
  replies, the Reddit search returns nothing.
\<close>

definition sample_services :: services where
  "sample_services =
     \<lparr> search_and_get_comments =
         (\<lambda>query max_videos max_comments_per_video.
            Inr [sample_video [sample_comment ''ann'' ''Great video'' []]]),
       get_comments_parallel = (\<lambda>query total_limit. Inr []) \<rparr>"

section \<open>Subreddit selection and relevance (services/reddit_service.py)\<close>

definition relevant_subreddits :: "string list" where
  "relevant_subreddits =
     [''all'', ''AskReddit'', ''todayilearned'', ''news'', ''worldnews'',
      ''technology'', ''science'', ''politics'', ''gaming'', ''movies'',
      ''music'', ''books'', ''sports'', ''food'', ''travel'', ''history'',
      ''personalfinance'', ''investing'', ''explainlikeimfive'', ''askscience'']"

text \<open>
  \<^verbatim>\<open>search_subreddits(query, limit=10)\<close>. \<open>probe name\<close> tells whether reading
  \<^verbatim>\<open>self.reddit.subreddit(name).display_name\<close> succeeds; a failing read is caught by
  the inner \<^verbatim>\<open>except\<close> and the name is skipped. The outer \<^verbatim>\<open>except\<close> is reached
  only when a statement outside the probe raises, which for a string query and an integer
  limit none does: \<open>query = None\<close> stands for an argument without \<^verbatim>\<open>.lower()\<close>
  (Python's \<^verbatim>\<open>None\<close>), on which the first statement raises.
\<close>

definition search_subreddits :: "(string \<Rightarrow> bool) \<Rightarrow> string option \<Rightarrow> int \<Rightarrow> string list" where
  "search_subreddits probe query limit =
     (case query of
        None \<Rightarrow> [''all'', ''AskReddit'']
      | Some query \<Rightarrow>
          let query_lower = lower query;
              query_words = split_ws query_lower;
              relevant_subreddits =
                relevant_subreddits @ filter (\<lambda>word. length word > 3) query_words;
              filtered_subreddits = filter probe relevant_subreddits;
              result = slice_to limit filtered_subreddits
          in result)"

text \<open>
  \<^verbatim>\<open>filter_comment_relevance(comment_text, query_terms)\<close>. The terms are iterated and
  counted, so they are a list; \<^verbatim>\<open>list(query_terms)[0]\<close> is read only when there is
  exactly one. \<^verbatim>\<open>matching_terms\<close> becomes a float once 0.5 is added, a rational here.
\<close>

definition matching_terms :: "string \<Rightarrow> string list \<Rightarrow> rat" where
  "matching_terms comment_text query_terms =
     (let comment_lower = lower comment_text;
          matching_terms = of_nat (length (filter (\<lambda>term. sublist term comment_lower) query_terms))
      in case query_terms of
           [term] \<Rightarrow>
             if length term > 3 then
               (let partial_term = take 4 term
                in if sublist partial_term comment_lower then matching_terms + 1 / 2
                   else matching_terms)
             else matching_terms
         | _ \<Rightarrow> matching_terms)"

definition filter_comment_relevance :: "string \<Rightarrow> string list \<Rightarrow> bool" where
  "filter_comment_relevance comment_text query_terms =
     (if length query_terms > 1
      then matching_terms comment_text query_terms \<ge> of_nat (max 1 (length query_terms div 2))
      else matching_terms comment_text query_terms > 0)"

text \<open>
  The match count in the words of the specification: the number of terms that occur in
  the lowercased comment, plus one half for a single-term query whose first 4 characters
  occur in it.
\<close>

definition spec_match_count :: "string \<Rightarrow> string list \<Rightarrow> rat" where
  "spec_match_count comment_text query_terms =
     of_nat (length (filter (\<lambda>term. sublist term (lower comment_text)) query_terms)) +
     (case query_terms of
        [term] \<Rightarrow> if sublist (take 4 term) (lower comment_text) then 1 / 2 else 0
      | _ \<Rightarrow> 0)"

section \<open>Query variations (services/ai_service.py)\<close>

text \<open>
  The generative model. \<open>model = None\<close> is \<^verbatim>\<open>self.model is None\<close>. A call of
  \<^verbatim>\<open>generate_content\<close> with the prompt built from the query and the number of
  variations either raises (\<open>Inl msg\<close>, which includes a failing read of
  \<^verbatim>\<open>response.text\<close>) or yields the response text.
\<close>

type_synonym model = "string \<Rightarrow> int \<Rightarrow> string + string"

text \<open>\<^verbatim>\<open>any(char.isdigit() for char in line[:3])\<close>\<close>

definition starts_with_number :: "string \<Rightarrow> bool" where
  "starts_with_number line = list_ex isdigit (take 3 line)"

text \<open>The loop over the lines of the response, appending to \<open>variations\<close>.\<close>

fun parse_lines :: "string list \<Rightarrow> string list \<Rightarrow> string list" where
  "parse_lines variations [] = variations"
| "parse_lines variations (line # rest) =
     (let line = strip line in
      if line \<noteq> [] \<and> starts_with_number line then
        (let variation = strip (last (split_once (CHR ''.'') line)) in
         if variation \<noteq> [] then parse_lines (variations @ [variation]) rest
         else parse_lines variations rest)
      else parse_lines variations rest)"

definition parse_variations :: "string \<Rightarrow> string list" where
  "parse_variations response_text =
     (let variations_text = strip response_text
      in parse_lines [] (split_on (CHR 0x0A) variations_text))"

definition generate_query_variations ::
    "config \<Rightarrow> model option \<Rightarrow> string \<Rightarrow> int option \<Rightarrow> string list" where
  "generate_query_variations cfg model original_query num_variations =
     (case model of
        None \<Rightarrow> [original_query]
      | Some generate_content \<Rightarrow>
          let num_variations = get_or num_variations (NUM_QUERY_VARIATIONS cfg) in
          case generate_content original_query num_variations of
            Inl e \<Rightarrow> [original_query]
          | Inr response_text \<Rightarrow>
              let variations = parse_variations response_text in
              if variations = [] then [original_query]
              else slice_to num_variations variations)"

text \<open>The variation \<open>v\<close> is what the loop body makes of the line \<open>l\<close>.\<close>

definition from_line :: "string \<Rightarrow> string \<Rightarrow> bool" where
  "from_line v l = (v \<noteq> [] \<and> starts_with_number (strip l) \<and>
      v = strip (last (split_once (CHR ''.'') (strip l))))"

text \<open>A sample response of the model.\<close>

definition sample_response :: string where
  "sample_response =
     ''Here are the variations:'' @ [CHR 0x0A] @
     ''1. best cats'' @ [CHR 0x0A] @
     '' 2. cats? why. not '' @ [CHR 0x0A] @
     ''3.'' @ [CHR 0x0A] @
     ''10) ten cats'' @ [CHR 0x0A]"

section \<open>Saving a search result (services/database.py)\<close>

text \<open>
  The dictionary handed to \<^verbatim>\<open>save_search_result\<close>, seen through the keys the function
  reads with \<^verbatim>\<open>data.get\<close> (absent keys read as \<open>None\<close>); \<open>sd_payload\<close> is the rest of
  the dictionary.
\<close>

record 'p search_data =
  sd_batch_id :: "string option"
  sd_query :: "string option"
  sd_timestamp :: "string option"
  sd_total_comments :: "int option"
  sd_unique_comments :: "int option"
  sd_payload :: 'p

record minimal_data =
  md_batch_id :: "string option"
  md_query :: "string option"
  md_timestamp :: "string option"
  md_total_comments :: "int option"
  md_unique_comments :: "int option"
  md_error :: string
  md_full_data_saved_to_files :: bool
  md_note :: string

datatype 'p document = FullDocument "'p search_data" | MinimalDocument minimal_data

text \<open>
  An exception raised by \<^verbatim>\<open>insert_one\<close>, with the message it was constructed with:
  the driver's \<^verbatim>\<open>pymongo.errors.DocumentTooLarge\<close>, raised for a document that
  exceeds the size limit, or any other exception. \<^verbatim>\<open>str(e)\<close> is the message; the
  name of the class is not part of it.
\<close>

datatype insert_error = DocumentTooLarge string | OtherError string

fun str_of_error :: "insert_error \<Rightarrow> string" where
  "str_of_error (DocumentTooLarge message) = message"
| "str_of_error (OtherError message) = message"

text \<open>
  The database: \<open>db_connect\<close> is the value of \<^verbatim>\<open>self.connect()\<close>, which catches its
  own exceptions; \<open>db_insert_one doc\<close> is the outcome of \<^verbatim>\<open>collection.insert_one(doc)\<close>,
  the inserted identifier or the exception raised. The collection is the list of the
  documents inserted so far.
\<close>

record 'p database =
  db_connect :: bool
  db_insert_one :: "'p document \<Rightarrow> insert_error + string"

text \<open>The test \<^verbatim>\<open>"DocumentTooLarge" in str(e)\<close> of the exception handler.\<close>

definition document_too_large :: "string \<Rightarrow> bool" where
  "document_too_large e = sublist ''DocumentTooLarge'' e"

definition minimal_of :: "'p search_data \<Rightarrow> minimal_data" where
  "minimal_of data =
     \<lparr> md_batch_id = sd_batch_id data,
       md_query = sd_query data,
       md_timestamp = sd_timestamp data,
       md_total_comments = sd_total_comments data,
       md_unique_comments = sd_unique_comments data,
       md_error = ''Data too large for MongoDB'',
       md_full_data_saved_to_files = True,
       md_note = ''Full data available in JSON files due to size constraints'' \<rparr>"

text \<open>
  \<^verbatim>\<open>save_search_result(data)\<close>: the returned identifier (\<open>None\<close> for Python's
  \<^verbatim>\<open>None\<close>) and the collection afterwards.
\<close>

definition save_search_result ::
    "'p database \<Rightarrow> 'p document list \<Rightarrow> 'p search_data \<Rightarrow> string option \<times> 'p document list" where
  "save_search_result db collection data =
     (if \<not> db_connect db then (None, collection)
      else case db_insert_one db (FullDocument data) of
             Inr inserted_id \<Rightarrow> (Some inserted_id, collection @ [FullDocument data])
           | Inl e \<Rightarrow>
               if document_too_large (str_of_error e) then
                 (let minimal_data = minimal_of data
                  in case db_insert_one db (MinimalDocument minimal_data) of
                       Inr inserted_id \<Rightarrow>
                         (Some inserted_id, collection @ [MinimalDocument minimal_data])
                     | Inl e2 \<Rightarrow> (None, collection))
               else (None, collection))"

text \<open>
  A sample database that refuses every full document as the driver does for one of 20
  million bytes, with the driver's message, and accepts the minimal one.
\<close>

definition oversize_message :: string where
  "oversize_message =
     ''BSON document too large (20000000 bytes) - the connected server supports BSON document sizes up to 16777216 bytes.''"

definition sample_database :: "unit database" where
  "sample_database =
     \<lparr> db_connect = True,
       db_insert_one = (\<lambda>doc. case doc of
          FullDocument d \<Rightarrow> Inl (DocumentTooLarge oversize_message)
        | MinimalDocument m \<Rightarrow> Inr ''id-1'') \<rparr>"

definition sample_data :: "unit search_data" where
  "sample_data =
     \<lparr> sd_batch_id = Some ''ab12cd34'', sd_query = Some ''cats'',
       sd_timestamp = Some ''2025-01-01T00:00:00'', sd_total_comments = Some 120,
       sd_unique_comments = Some 100, sd_payload = () \<rparr>"

section \<open>Aggregation over query variations (services/comment_fetcher.py)\<close>

text \<open>An entry of \<^verbatim>\<open>query_results\<close>: one of the three dictionaries the loop appends.\<close>

record query_success =
  qs_query :: string
  qs_total_comments :: int
  qs_total_replies :: int
  qs_unique_comments :: int
  qs_new_unique_comments :: int
  qs_sources :: "string list"
  qs_attempts :: int

datatype query_run =
    Success query_success
  | Failed string string
  | Crashed string py_error

text \<open>The accumulators of the aggregation loop, as fields prefixed with \<open>ag_\<close>.\<close>

record agg_state =
  ag_all_unique_comments :: unique_dict
  ag_all_videos_data :: "video list"
  ag_total_processed_comments :: int
  ag_total_processed_replies :: int
  ag_successful_queries :: int
  ag_failed_queries :: int
  ag_query_results :: "query_run list"

text \<open>
  The loop that adds one query's unique comments to the global dictionary and counts the
  new ones.
\<close>

fun add_unique :: "unique_dict \<times> int \<Rightarrow> unique_comment list \<Rightarrow> unique_dict \<times> int" where
  "add_unique (all_unique, new_unique_count) [] = (all_unique, new_unique_count)"
| "add_unique (all_unique, new_unique_count) (comment # rest) =
     (let comment_text = strip (uc_text comment) in
      if map_of all_unique comment_text = None
      then add_unique (AList.update comment_text comment all_unique, new_unique_count + 1) rest
      else add_unique (all_unique, new_unique_count) rest)"

text \<open>
  The loop over the queries; \<open>n\<close> is \<^verbatim>\<open>len(queries)\<close>. An exception inside the
  \<^verbatim>\<open>try\<close> marks the query as crashed; reaching the target leaves by \<^verbatim>\<open>break\<close>.
\<close>

fun aggregate_queries :: "config \<Rightarrow> services \<Rightarrow> int \<Rightarrow> int \<Rightarrow> agg_state \<Rightarrow> string list \<Rightarrow> agg_state" where
  "aggregate_queries cfg sv target_total_comments n st [] = st"
| "aggregate_queries cfg sv target_total_comments n st (query # rest) =
     (case fetch_all_comments_parallel cfg sv query
             (Some (max 5000 (target_total_comments div n))) (Some 2) of
        Inl e \<Rightarrow>
          aggregate_queries cfg sv target_total_comments n
            (st \<lparr> ag_failed_queries := ag_failed_queries st + 1,
                  ag_query_results := ag_query_results st @ [Crashed query e] \<rparr>) rest
      | Inr query_result \<Rightarrow>
          if fr_videos query_result \<noteq> [] then
            (case get_unique_comments_unified (fr_videos query_result) of
               (query_unique, query_unique_count, query_replies) \<Rightarrow>
                 (case add_unique (ag_all_unique_comments st, 0) query_unique of
                    (all_unique, new_unique_count) \<Rightarrow>
                      let st = st
                            \<lparr> ag_all_unique_comments := all_unique,
                              ag_all_videos_data := ag_all_videos_data st @ fr_videos query_result,
                              ag_total_processed_comments :=
                                ag_total_processed_comments st + fr_total_comments query_result,
                              ag_total_processed_replies :=
                                ag_total_processed_replies st + fr_total_replies query_result,
                              ag_query_results := ag_query_results st @
                                [Success \<lparr> qs_query = query,
                                    qs_total_comments = fr_total_comments query_result,
                                    qs_total_replies = fr_total_replies query_result,
                                    qs_unique_comments = query_unique_count,
                                    qs_new_unique_comments = new_unique_count,
                                    qs_sources = fr_sources query_result,
                                    qs_attempts = fr_attempts_made query_result \<rparr>],
                              ag_successful_queries := ag_successful_queries st + 1 \<rparr>;
                          current_unique_total = int (length (ag_all_unique_comments st))
                      in if current_unique_total \<ge> target_total_comments then st
                         else aggregate_queries cfg sv target_total_comments n st rest))
          else
            aggregate_queries cfg sv target_total_comments n
              (st \<lparr> ag_failed_queries := ag_failed_queries st + 1,
                    ag_query_results := ag_query_results st @ [Failed query ''No data collected''] \<rparr>)
              rest)"

record aggregation_result =
  ar_videos :: "video list"
  ar_unique_comments :: "unique_comment list"
  ar_unique_count :: int
  ar_total_processed_comments :: int
  ar_total_processed_replies :: int
  ar_grand_total :: int
  ar_successful_queries :: int
  ar_failed_queries :: int
  ar_query_results :: "query_run list"
  ar_target_achieved :: bool
  ar_original_queries :: "string list"

definition fetch_multiple_queries_aggregated ::
    "config \<Rightarrow> services \<Rightarrow> string list \<Rightarrow> int option \<Rightarrow> aggregation_result" where
  "fetch_multiple_queries_aggregated cfg sv queries target_total_comments =
     (let target_total_comments = get_or target_total_comments (TARGET_TOTAL_COMMENTS cfg);
          st = aggregate_queries cfg sv target_total_comments (int (length queries))
                 \<lparr> ag_all_unique_comments = [], ag_all_videos_data = [],
                   ag_total_processed_comments = 0, ag_total_processed_replies = 0,
                   ag_successful_queries = 0, ag_failed_queries = 0, ag_query_results = [] \<rparr>
                 queries;
          final_unique_comments = map snd (ag_all_unique_comments st);
          final_unique_count = int (length final_unique_comments)
      in \<lparr> ar_videos = ag_all_videos_data st,
           ar_unique_comments = final_unique_comments,
           ar_unique_count = final_unique_count,
           ar_total_processed_comments = ag_total_processed_comments st,
           ar_total_processed_replies = ag_total_processed_replies st,
           ar_grand_total = ag_total_processed_comments st + ag_total_processed_replies st,
           ar_successful_queries = ag_successful_queries st,
           ar_failed_queries = ag_failed_queries st,
           ar_query_results = ag_query_results st,
           ar_target_achieved = (final_unique_count \<ge> target_total_comments),
           ar_original_queries = queries \<rparr>)"

section \<open>Saving unified data (services/comment_fetcher.py)\<close>

text \<open>
  The document built by \<^verbatim>\<open>save_unified_data\<close>. The two per-source averages of
  \<^verbatim>\<open>processing_info\<close> are floating-point quotients and are left out.
\<close>

record processing_info =
  pi_processed_at :: string
  pi_duplicates_removed :: int
  pi_youtube_comments :: int
  pi_reddit_comments :: int

record combined_data =
  cd_batch_id :: string
  cd_query :: string
  cd_timestamp :: string
  cd_sources :: "string list"
  cd_total_youtube_videos :: int
  cd_total_reddit_posts :: int
  cd_total_comments :: int
  cd_total_replies :: int
  cd_grand_total :: int
  cd_unique_comments :: int
  cd_youtube_data :: "video list"
  cd_reddit_data :: "video list"
  cd_unique_comments_data :: "unique_comment list"
  cd_processing_info :: processing_info

text \<open>The document as \<^verbatim>\<open>save_search_result\<close> reads it.\<close>

definition as_search_data :: "combined_data \<Rightarrow> combined_data search_data" where
  "as_search_data d =
     \<lparr> sd_batch_id = Some (cd_batch_id d), sd_query = Some (cd_query d),
       sd_timestamp = Some (cd_timestamp d), sd_total_comments = Some (cd_total_comments d),
       sd_unique_comments = Some (cd_unique_comments d), sd_payload = d \<rparr>"

text \<open>
  \<^verbatim>\<open>save_unified_data(query, videos_data, unique_comments, unique_count, total_replies,
  total_comments, sources)\<close>. \<open>batch_id\<close> and \<open>now\<close> are the fresh identifier and the
  clock reading. The two JSON backup files do not enter the returned value and are not
  modelled. The result is the storage label, the document, and the collection
  afterwards.
\<close>

definition save_unified_data ::
    "combined_data database \<Rightarrow> combined_data document list \<Rightarrow> string \<Rightarrow> string \<Rightarrow>
     string \<Rightarrow> video list \<Rightarrow> unique_comment list \<Rightarrow> int \<Rightarrow> int \<Rightarrow> int \<Rightarrow> string list \<Rightarrow>
     string \<times> combined_data \<times> combined_data document list" where
  "save_unified_data db collection batch_id now
      query videos_data unique_comments unique_count total_replies total_comments sources =
     (let youtube_videos = filter (\<lambda>v. v_source v = Some ''youtube'') videos_data;
          reddit_posts = filter (\<lambda>v. v_source v = Some ''reddit'') videos_data;
          combined_data =
            \<lparr> cd_batch_id = batch_id,
              cd_query = query,
              cd_timestamp = now,
              cd_sources = sources,
              cd_total_youtube_videos = int (length youtube_videos),
              cd_total_reddit_posts = int (length reddit_posts),
              cd_total_comments = total_comments,
              cd_total_replies = total_replies,
              cd_grand_total = total_comments + total_replies,
              cd_unique_comments = unique_count,
              cd_youtube_data = youtube_videos,
              cd_reddit_data = reddit_posts,
              cd_unique_comments_data = unique_comments,
              cd_processing_info =
                \<lparr> pi_processed_at = now,
                  pi_duplicates_removed = total_comments - unique_count,
                  pi_youtube_comments =
                    sum_list (map (\<lambda>v. int (length (v_comments v))) youtube_videos),
                  pi_reddit_comments =
                    sum_list (map (\<lambda>v. int (length (v_comments v))) reddit_posts) \<rparr> \<rparr>
      in case save_search_result db collection (as_search_data combined_data) of
           (mongo_result, collection) \<Rightarrow>
             (case mongo_result of
                Some inserted_id \<Rightarrow> (''mongodb:'' @ inserted_id, combined_data, collection)
              | None \<Rightarrow> (''files_only'', combined_data, collection)))"

section \<open>The search endpoint (routes/search_routes.py)\<close>

text \<open>The JSON body of the request, by the keys the endpoint reads.\<close>

record search_request =
  rq_query :: "string option"
  rq_num_variations :: "int option"
  rq_target_comments :: "int option"

text \<open>
  The fields of the successful response that are computed from the run (latency and
  timestamp are clock readings and are left out).
\<close>

record search_response =
  sr_search_query :: string
  sr_query_variations_generated :: int
  sr_batch_id :: string
  sr_total_youtube_videos :: int
  sr_total_reddit_posts :: int
  sr_total_comments :: int
  sr_total_replies :: int
  sr_grand_total :: int
  sr_unique_comments :: int
  sr_saved_to :: string
  sr_target_achieved :: bool
  sr_successful_queries :: int
  sr_failed_queries :: int
  sr_query_results :: "query_run list"

datatype http_response = HttpError int string | HttpOk search_response

text \<open>
  \<^verbatim>\<open>POST /api/search\<close>: the response, the document handed to the database (if the run
  got that far), and the collection afterwards.
\<close>

definition search ::
    "config \<Rightarrow> model option \<Rightarrow> services \<Rightarrow> combined_data database \<Rightarrow>
     combined_data document list \<Rightarrow> string \<Rightarrow> string \<Rightarrow> search_request \<Rightarrow>
     http_response \<times> combined_data option \<times> combined_data document list" where
  "search cfg model sv db collection batch_id now data =
     (let original_query = strip (get_or (rq_query data) '''') in
      case validate_query original_query of
        (is_valid, validation_message) \<Rightarrow>
          if \<not> is_valid then (HttpError 400 validation_message, None, collection)
          else
            let query_variations =
                  generate_query_variations cfg model original_query
                    (Some (get_or (rq_num_variations data) 20))
            in if query_variations = []
               then (HttpError 500 ''Failed to generate query variations!'', None, collection)
               else
                 let target_comments = get_or (rq_target_comments data) 50000;
                     aggregation_result =
                       fetch_multiple_queries_aggregated cfg sv query_variations
                         (Some target_comments)
                 in if ar_videos aggregation_result = []
                    then (HttpError 404 ''No content found from any query variation!'', None,
                          collection)
                    else
                      let total_comments = ar_total_processed_comments aggregation_result;
                          total_replies = ar_total_processed_replies aggregation_result;
                          grand_total = ar_grand_total aggregation_result;
                          unique_count = ar_unique_count aggregation_result;
                          unique_comments = ar_unique_comments aggregation_result
                      in case save_unified_data db collection batch_id now
                                original_query (ar_videos aggregation_result) unique_comments
                                unique_count total_replies grand_total [''youtube'', ''reddit''] of
                           (save_result, combined_data, collection) \<Rightarrow>
                             (HttpOk
                                \<lparr> sr_search_query = original_query,
                                  sr_query_variations_generated = int (length query_variations),
                                  sr_batch_id = cd_batch_id combined_data,
                                  sr_total_youtube_videos =
                                    int (length (filter (\<lambda>v. v_source v = Some ''youtube'')
                                      (ar_videos aggregation_result))),
                                  sr_total_reddit_posts =
                                    int (length (filter (\<lambda>v. v_source v = Some ''reddit'')
                                      (ar_videos aggregation_result))),
                                  sr_total_comments = total_comments,
                                  sr_total_replies = total_replies,
                                  sr_grand_total = grand_total,
                                  sr_unique_comments = unique_count,
                                  sr_saved_to = save_result,
                                  sr_target_achieved = ar_target_achieved aggregation_result,
                                  sr_successful_queries =
                                    ar_successful_queries aggregation_result,
                                  sr_failed_queries = ar_failed_queries aggregation_result,
                                  sr_query_results = ar_query_results aggregation_result \<rparr>,
                              Some combined_data, collection))"

text \<open>
  Samples for a concrete run: a video search that always returns one video with one
  comment and one reply, a database that accepts every document, and a request that
  leaves the optional keys out.
\<close>

definition replying_services :: services where
  "replying_services =
     \<lparr> search_and_get_comments =
         (\<lambda>query max_videos max_comments_per_video.
            Inr [sample_video [sample_comment ''ann'' ''Great video''
                                 [sample_reply ''bob'' ''agreed'']]]),
       get_comments_parallel = (\<lambda>query total_limit. Inr []) \<rparr>"

definition accepting_database :: "'p database" where
  "accepting_database = \<lparr> db_connect = True, db_insert_one = (\<lambda>doc. Inr ''id-1'') \<rparr>"

definition sample_request :: search_request where
  "sample_request =
     \<lparr> rq_query = Some '' cats '', rq_num_variations = None, rq_target_comments = None \<rparr>"

section \<open>Facts about the string functions\<close>

lemma strip_Nil [simp]: "strip [] = []"
  by (simp add: strip_def lstrip_def rstrip_def)

lemma strip_no_space:
  assumes "\<not> isspace (hd s)" and "\<not> isspace (last s)"
  shows "strip s = s"
proof (cases s rule: rev_cases)
  case Nil
  then show ?thesis by simp
next
  case (snoc ys y)
  from assms(1) have l: "dropWhile isspace s = s"
    by (cases s) auto
  from snoc assms have "dropWhile isspace (rev s) = rev s"
    by simp
  with l show ?thesis
    by (simp add: strip_def lstrip_def rstrip_def)
qed

lemma strip_replicate:
  "\<not> isspace c \<Longrightarrow> strip (replicate n c) = replicate n c"
  by (cases n) (simp_all add: strip_no_space del: replicate_Suc)

lemma prefix_rstrip: "prefix (rstrip s) s"
proof -
  have "suffix (dropWhile isspace (rev s)) (rev s)"
    by (rule suffix_dropWhile)
  then show ?thesis
    unfolding rstrip_def by (simp add: suffix_to_prefix)
qed

lemma strip_ends:
  assumes "strip s \<noteq> []"
  shows "\<not> isspace (hd (strip s))" and "\<not> isspace (last (strip s))"
proof -
  let ?u = "lstrip s"
  from assms have u: "?u \<noteq> []" by (auto simp: strip_def rstrip_def)
  then have hu: "\<not> isspace (hd ?u)"
    unfolding lstrip_def by (rule hd_dropWhile)
  from prefix_rstrip [of ?u] obtain zs where "?u = rstrip ?u @ zs"
    by (auto simp: prefix_def)
  with assms have "hd ?u = hd (rstrip ?u)"
    unfolding strip_def by (metis hd_append2)
  then have "hd (strip s) = hd ?u" by (simp add: strip_def)
  with hu show "\<not> isspace (hd (strip s))" by simp
  from assms have "dropWhile isspace (rev ?u) \<noteq> []"
    by (simp add: strip_def rstrip_def)
  then have "\<not> isspace (hd (dropWhile isspace (rev ?u)))" by (rule hd_dropWhile)
  with assms show "\<not> isspace (last (strip s))"
    by (simp add: strip_def rstrip_def last_rev)
qed

lemma strip_idem: "strip (strip s) = strip s"
proof (cases "strip s = []")
  case True
  then show ?thesis by simp
next
  case False
  then show ?thesis by (intro strip_no_space strip_ends)
qed

section \<open>Facts about get_unique_comments_unified\<close>

lemma set_alist_update: "set (AList.update k v al) \<subseteq> insert (k, v) (set al)"
  by (induction al) auto

lemma add_replies_long:
  "\<forall>r\<in>set rs. 3 < length (ur_text r) \<Longrightarrow>
   \<forall>r\<in>set (fst (add_replies source ex new (rs, n))). 3 < length (ur_text r)"
proof (induction new arbitrary: rs n)
  case Nil
  then show ?case by simp
next
  case (Cons reply rest)
  show ?case
  proof (cases "strip (r_text reply) \<noteq> [] \<and> strip (r_text reply) \<notin> set ex
      \<and> length (strip (r_text reply)) > 3")
    case True
    have "\<forall>r\<in>set (rs @ [new_unique_reply source reply (strip (r_text reply))]).
        3 < length (ur_text r)"
      using Cons.prems True by (auto simp: new_unique_reply_def)
    from Cons.IH [OF this] True show ?thesis by (simp add: Let_def)
  next
    case False
    with Cons.IH [OF Cons.prems] show ?thesis by (auto simp: Let_def)
  qed
qed

lemma process_comment_short:
  "length (strip (c_text comment)) < 3 \<Longrightarrow> process_comment video source st comment = st"
  by (cases st) (auto simp: process_comment_def Let_def)

lemma process_comment_ok:
  assumes "\<forall>p\<in>set (fst st). entry_ok p"
  shows "\<forall>p\<in>set (fst (process_comment video source st comment)). entry_ok p"
proof -
  obtain uc tc tr where st: "st = (uc, tc, tr)" by (cases st)
  define t where "t = strip (c_text comment)"
  show ?thesis
  proof (cases "t = [] \<or> length t < 3")
    case True
    with assms show ?thesis by (simp add: st process_comment_def t_def)
  next
    case False
    define uc1 where "uc1 = (if map_of uc t = None
        then AList.update t (new_unique_comment video source comment t) uc else uc)"
    have ok1: "\<forall>p\<in>set uc1. entry_ok p"
      using assms False set_alist_update [of t "new_unique_comment video source comment t" uc]
      by (auto simp: uc1_def st entry_ok_def new_unique_comment_def)
    have "map_of uc1 t \<noteq> None"
      by (auto simp: uc1_def update_conv')
    then obtain e where e: "map_of uc1 t = Some e" by blast
    then have "(t, e) \<in> set uc1" by (rule map_of_SomeD)
    with ok1 have eok: "entry_ok (t, e)" by blast
    define res where "res = add_replies source (map ur_text (uc_replies e))
        (get_or (c_replies comment) []) (uc_replies e, tr)"
    have "\<forall>r\<in>set (fst res). 3 < length (ur_text r)"
      unfolding res_def using eok by (intro add_replies_long) (simp add: entry_ok_def)
    then have "entry_ok (t, e\<lparr>uc_replies := fst res\<rparr>)"
      using eok by (simp add: entry_ok_def)
    with ok1 set_alist_update [of t "e\<lparr>uc_replies := fst res\<rparr>" uc1]
    have "\<forall>p\<in>set (AList.update t (e\<lparr>uc_replies := fst res\<rparr>) uc1). entry_ok p"
      by blast
    moreover have "fst (process_comment video source st comment) =
        AList.update t (e\<lparr>uc_replies := fst res\<rparr>) uc1"
      using False e
      by (auto simp: st process_comment_def t_def [symmetric] Let_def uc1_def res_def
          split: prod.splits)
    ultimately show ?thesis by simp
  qed
qed


lemma length_alist_update:
  "length (AList.update k v al) = (if k \<in> fst ` set al then length al else Suc (length al))"
  by (induction al) auto

text \<open>What the loop body does to the dictionary and the comment counter when the text is kept.\<close>

lemma process_comment_long:
  assumes "3 \<le> length (strip (c_text comment))"
  obtains e where
    "fst (process_comment video source (uc, tc, tr) comment) =
       AList.update (strip (c_text comment)) e
         (if map_of uc (strip (c_text comment)) = None
          then AList.update (strip (c_text comment))
                 (new_unique_comment video source comment (strip (c_text comment))) uc
          else uc)"
    "fst (snd (process_comment video source (uc, tc, tr) comment)) =
       (if map_of uc (strip (c_text comment)) = None then tc + 1 else tc)"
proof -
  let ?t = "strip (c_text comment)"
  let ?uc1 = "if map_of uc ?t = None
      then AList.update ?t (new_unique_comment video source comment ?t) uc else uc"
  have "map_of ?uc1 ?t \<noteq> None"
    by (auto simp: update_conv')
  then obtain e where e: "map_of ?uc1 ?t = Some e" by blast
  let ?res = "add_replies source (map ur_text (uc_replies e))
      (get_or (c_replies comment) []) (uc_replies e, tr)"
  from assms have ne: "\<not> (?t = [] \<or> length ?t < 3)" by auto
  have a: "fst (process_comment video source (uc, tc, tr) comment) =
      AList.update ?t (e\<lparr>uc_replies := fst ?res\<rparr>) ?uc1"
    using ne e
    by (auto simp: process_comment_def Let_def split: prod.splits)
  have b: "fst (snd (process_comment video source (uc, tc, tr) comment)) =
       (if map_of uc ?t = None then tc + 1 else tc)"
    using ne e
    by (auto simp: process_comment_def Let_def split: prod.splits)
  from a b show ?thesis by (rule that)
qed

lemma process_comment_keys:
  "fst ` set (fst (process_comment video source st comment)) =
     fst ` set (fst st) \<union> kept_text comment"
proof (cases "3 \<le> length (strip (c_text comment))")
  case True
  obtain uc tc tr where st: "st = (uc, tc, tr)" by (cases st)
  from True show ?thesis
    unfolding st
    by (rule process_comment_long [of comment video source uc tc tr])
       (auto simp: True dom_update kept_text_def)
next
  case False
  then show ?thesis by (simp add: process_comment_short kept_text_def)
qed

lemma process_comment_distinct:
  assumes "distinct (map fst (fst st))"
  shows "distinct (map fst (fst (process_comment video source st comment)))"
proof (cases "3 \<le> length (strip (c_text comment))")
  case True
  obtain uc tc tr where st: "st = (uc, tc, tr)" by (cases st)
  from True show ?thesis
    unfolding st
    by (rule process_comment_long [of comment video source uc tc tr])
       (insert assms, auto simp: st distinct_update)
next
  case False
  with assms show ?thesis by (simp add: process_comment_short)
qed

lemma process_comment_count:
  assumes "fst (snd st) = int (length (fst st))"
  shows "fst (snd (process_comment video source st comment)) =
         int (length (fst (process_comment video source st comment)))"
proof (cases "3 \<le> length (strip (c_text comment))")
  case True
  obtain uc tc tr where st: "st = (uc, tc, tr)" by (cases st)
  from True show ?thesis
    unfolding st
    by (rule process_comment_long [of comment video source uc tc tr])
       (insert assms, auto simp: st length_alist_update dom_update map_of_eq_None_iff)
next
  case False
  with assms show ?thesis by (simp add: process_comment_short)
qed


lemma foldl_invariant:
  assumes "\<And>s x. P s \<Longrightarrow> P (f s x)" and "P s"
  shows "P (foldl f s xs)"
  using assms(2) by (induction xs arbitrary: s) (auto intro: assms(1))

lemma foldl_process_comment_keys:
  "fst ` set (fst (foldl (process_comment video source) st cs)) =
     fst ` set (fst st) \<union> (\<Union>c\<in>set cs. kept_text c)"
  by (induction cs arbitrary: st) (auto simp: process_comment_keys)

lemma process_video_keys:
  "fst ` set (fst (process_video st v)) =
     fst ` set (fst st) \<union> (\<Union>c\<in>set (v_comments v). kept_text c)"
  unfolding process_video_def by (rule foldl_process_comment_keys)

lemma foldl_process_video_keys:
  "fst ` set (fst (foldl process_video st vs)) =
     fst ` set (fst st) \<union> (\<Union>v\<in>set vs. \<Union>c\<in>set (v_comments v). kept_text c)"
  by (induction vs arbitrary: st) (auto simp: process_video_keys)

lemma foldl_process_video_ok:
  "\<forall>p\<in>set (fst (foldl process_video ([], 0, 0) vs)). entry_ok p"
proof (rule foldl_invariant [where P = "\<lambda>st. \<forall>p\<in>set (fst st). entry_ok p"])
  fix s :: "unique_dict \<times> int \<times> int" and v
  assume "\<forall>p\<in>set (fst s). entry_ok p"
  then show "\<forall>p\<in>set (fst (process_video s v)). entry_ok p"
    unfolding process_video_def
    by (rule foldl_invariant [where P = "\<lambda>st. \<forall>p\<in>set (fst st). entry_ok p", rotated])
       (rule process_comment_ok)
qed simp

lemma foldl_process_video_distinct:
  "distinct (map fst (fst (foldl process_video ([], 0, 0) vs)))"
proof (rule foldl_invariant [where P = "\<lambda>st. distinct (map fst (fst st))"])
  fix s :: "unique_dict \<times> int \<times> int" and v
  assume "distinct (map fst (fst s))"
  then show "distinct (map fst (fst (process_video s v)))"
    unfolding process_video_def
    by (rule foldl_invariant [where P = "\<lambda>st. distinct (map fst (fst st))", rotated])
       (rule process_comment_distinct)
qed simp

lemma foldl_process_video_count:
  "fst (snd (foldl process_video ([], 0, 0) vs)) =
     int (length (fst (foldl process_video ([], 0, 0) vs)))"
proof (rule foldl_invariant [where P = "\<lambda>st. fst (snd st) = int (length (fst st))"])
  fix s :: "unique_dict \<times> int \<times> int" and v
  assume "fst (snd s) = int (length (fst s))"
  then show "fst (snd (process_video s v)) = int (length (fst (process_video s v)))"
    unfolding process_video_def
    by (rule foldl_invariant [where P = "\<lambda>st. fst (snd st) = int (length (fst st))", rotated])
       (rule process_comment_count)
qed simp

lemma new_unique_comment_drop_short:
  "new_unique_comment (drop_short v) = new_unique_comment v"
  by (intro ext)
     (simp add: new_unique_comment_def video_title_of_def subreddit_of_def drop_short_def)

lemma process_comment_drop_short:
  "process_comment (drop_short v) = process_comment v"
  by (intro ext)
     (simp add: process_comment_def new_unique_comment_drop_short cong del: if_weak_cong)

lemma foldl_process_comment_filter:
  "foldl (process_comment v s) st (filter (\<lambda>c. 3 \<le> length (strip (c_text c))) cs) =
   foldl (process_comment v s) st cs"
  by (induction cs arbitrary: st) (auto simp: process_comment_short)

lemma process_video_drop_short: "process_video st (drop_short v) = process_video st v"
proof -
  have "source_of (drop_short v) = source_of v"
    by (simp add: source_of_def drop_short_def)
  moreover have "v_comments (drop_short v) =
      filter (\<lambda>c. 3 \<le> length (strip (c_text c))) (v_comments v)"
    by (simp add: drop_short_def)
  ultimately show ?thesis
    by (simp add: process_video_def process_comment_drop_short foldl_process_comment_filter)
qed

lemma foldl_process_video_drop_short:
  "foldl process_video st (map drop_short vs) = foldl process_video st vs"
  by (induction vs arbitrary: st) (simp_all add: process_video_drop_short)

lemma unique_texts_are_keys:
  "\<forall>p\<in>set al. entry_ok p \<Longrightarrow> map uc_text (map snd al) = map fst al"
  by (induction al) (auto simp: entry_ok_def)

lemmas sample_defs = sample_reply_def sample_comment_def sample_video_def

lemmas unique_defs = get_unique_comments_unified_def process_video_def process_comment_def
  source_of_def get_or_def new_unique_comment_def new_unique_reply_def video_title_of_def
  subreddit_of_def

lemmas strip_defs = strip_def lstrip_def rstrip_def isspace_def

lemma unique_texts_distinct:
  "distinct (map uc_text (fst (get_unique_comments_unified videos)))"
proof -
  define st where "st = foldl process_video ([], 0, 0) videos"
  have "\<forall>p\<in>set (fst st). entry_ok p"
    unfolding st_def by (rule foldl_process_video_ok)
  then have "map uc_text (map snd (fst st)) = map fst (fst st)"
    by (rule unique_texts_are_keys)
  moreover have "distinct (map fst (fst st))"
    unfolding st_def by (rule foldl_process_video_distinct)
  moreover have "fst (get_unique_comments_unified videos) = map snd (fst st)"
    by (simp add: get_unique_comments_unified_def st_def split: prod.splits)
  ultimately show ?thesis by (simp only:)
qed

section \<open>Facts about fetch_all_comments_parallel\<close>

lemma attempt_body_fields:
  "ls_attempt (attempt_body sv query st) = ls_attempt st"
  "ls_iterations (attempt_body sv query st) = Suc (ls_iterations st)"
  "ls_errors (attempt_body sv query st) \<noteq> None"
  by (auto simp: attempt_body_def Let_def split: sum.splits option.splits prod.splits)

lemma fetch_loop_exits:
  "ls_attempt st = 1 + int (ls_iterations st) \<Longrightarrow>
   fetch_loop sv query m r st = st \<or>
     (ls_errors (fetch_loop sv query m r st) \<noteq> None \<and>
      m \<le> ls_total_comments (fetch_loop sv query m r st) + ls_total_replies (fetch_loop sv query m r st) \<and>
      ls_attempt (fetch_loop sv query m r st) = int (ls_iterations (fetch_loop sv query m r st))) \<or>
     (ls_errors (fetch_loop sv query m r st) \<noteq> None \<and>
      ls_total_comments (fetch_loop sv query m r st) + ls_total_replies (fetch_loop sv query m r st) < m \<and>
      ls_attempt (fetch_loop sv query m r st) = 1 + int (ls_iterations (fetch_loop sv query m r st)))"
proof (induction sv query m r st rule: fetch_loop.induct)
  case (1 sv query m r st)
  let ?b = "attempt_body sv query st"
  show ?case
  proof (cases "ls_total_comments st + ls_total_replies st < m \<and> ls_attempt st \<le> r")
    case False
    then have "fetch_loop sv query m r st = st"
      by (subst fetch_loop.simps) auto
    then show ?thesis by simp
  next
    case enter: True
    show ?thesis
    proof (cases "m \<le> ls_total_comments ?b + ls_total_replies ?b")
      case True
      with enter have "fetch_loop sv query m r st = ?b"
        by (subst fetch_loop.simps) (simp add: Let_def)
      with True "1.prems" show ?thesis
        by (simp add: attempt_body_fields)
    next
      case False
      let ?n = "?b\<lparr>ls_attempt := ls_attempt ?b + 1\<rparr>"
      from enter False have eq: "fetch_loop sv query m r st = fetch_loop sv query m r ?n"
        by (subst fetch_loop.simps) (simp add: Let_def)
      have inv: "ls_attempt ?n = 1 + int (ls_iterations ?n)"
        using "1.prems" by (simp add: attempt_body_fields)
      have "fetch_loop sv query m r ?n = ?n \<or>
        (ls_errors (fetch_loop sv query m r ?n) \<noteq> None \<and>
         m \<le> ls_total_comments (fetch_loop sv query m r ?n) + ls_total_replies (fetch_loop sv query m r ?n) \<and>
         ls_attempt (fetch_loop sv query m r ?n) = int (ls_iterations (fetch_loop sv query m r ?n))) \<or>
        (ls_errors (fetch_loop sv query m r ?n) \<noteq> None \<and>
         ls_total_comments (fetch_loop sv query m r ?n) + ls_total_replies (fetch_loop sv query m r ?n) < m \<and>
         ls_attempt (fetch_loop sv query m r ?n) = 1 + int (ls_iterations (fetch_loop sv query m r ?n)))"
        using enter False inv by (intro "1.IH") (simp_all add: Let_def)
      then show ?thesis
        unfolding eq using False inv by (auto simp: attempt_body_fields)
    qed
  qed
qed


lemma attempts_made_by_exit:
  assumes "fetch_all_comments_parallel cfg sv query min_total_comments max_retries = Inr res"
  shows "fr_attempts_made res =
     int (fr_iterations res) - (if fr_target_achieved res then 1 else 0)"
proof -
  define m where "m = get_or min_total_comments (TARGET_TOTAL_COMMENTS cfg)"
  define r where "r = get_or max_retries (MAX_RETRY_ATTEMPTS cfg)"
  define st0 where "st0 = \<lparr> ls_all_videos = [], ls_total_comments = 0, ls_total_replies = 0,
     ls_attempt = 1, ls_sources_used = [], ls_errors = None, ls_iterations = 0 \<rparr>"
  define st where "st = fetch_loop sv query m r st0"
  from assms obtain errs where e: "ls_errors st = Some errs"
    and res: "res = \<lparr> fr_videos = ls_all_videos st,
                   fr_total_comments = ls_total_comments st,
                   fr_total_replies = ls_total_replies st,
                   fr_grand_total = ls_total_comments st + ls_total_replies st,
                   fr_sources = ls_sources_used st,
                   fr_errors = errs,
                   fr_target_achieved = (ls_total_comments st + ls_total_replies st \<ge> m),
                   fr_attempts_made = ls_attempt st - 1,
                   fr_iterations = ls_iterations st \<rparr>"
    by (auto simp: fetch_all_comments_parallel_def Let_def m_def r_def st0_def st_def
        split: option.splits)
  have "ls_attempt st0 = 1 + int (ls_iterations st0)" by (simp add: st0_def)
  from fetch_loop_exits [OF this, of sv query m r] e
  have "(m \<le> ls_total_comments st + ls_total_replies st \<and> ls_attempt st = int (ls_iterations st)) \<or>
     (ls_total_comments st + ls_total_replies st < m \<and> ls_attempt st = 1 + int (ls_iterations st))"
    unfolding st_def [symmetric] by (auto simp: st0_def)
  then show ?thesis unfolding res by auto
qed

section \<open>Facts about sanitize_filename\<close>

lemma python_tables_space:
  assumes "python_tables U"
  shows "u_isalnum U c \<Longrightarrow> \<not> u_isspace U c"
    and "u_isspace U 0x20" and "\<not> u_isspace U 0x5F" and "\<not> u_isspace U 0x2D"
  using assms unfolding python_tables_def by blast+

lemma python_tables_ascii:
  assumes "python_tables U"
  shows "c < 128 \<Longrightarrow> u_isalnum U c =
          ((48 \<le> c \<and> c \<le> 57) \<or> (65 \<le> c \<and> c \<le> 90) \<or> (97 \<le> c \<and> c \<le> 122))"
    and "\<forall>c\<in>set s. c < 128 \<Longrightarrow> u_lower U s = map ascii_lower s"
  using assms unfolding python_tables_def by blast+

lemma python_tables_lower:
  assumes "python_tables U" and "0x130 \<notin> set s"
  shows "length (u_lower U s) = length s"
    and "0x130 \<notin> set (u_lower U s)"
    and "u_lower U (u_lower U s) = u_lower U s"
    and "i < length s \<Longrightarrow> u_isalnum U (s ! i) \<Longrightarrow> u_isalnum U (u_lower U s ! i)"
    and "i < length s \<Longrightarrow> (u_lower U s ! i = 0x5F) = (s ! i = 0x5F)"
    and "i < length s \<Longrightarrow> (u_lower U s ! i = 0x2D) = (s ! i = 0x2D)"
  using assms unfolding python_tables_def by blast+

lemma keep_not_space:
  assumes "python_tables U" and "keep_char U c"
  shows "\<not> u_isspace U c" and "c \<noteq> 0x20"
proof -
  from assms show "\<not> u_isspace U c"
    using python_tables_space [OF assms(1)] by (auto simp: keep_char_def)
  with python_tables_space(2) [OF assms(1)] show "c \<noteq> 0x20" by auto
qed

lemma ustrip_Nil [simp]: "ustrip U [] = []"
  by (simp add: ustrip_def)

lemma ustrip_no_space:
  assumes "\<not> u_isspace U (hd s)" and "\<not> u_isspace U (last s)"
  shows "ustrip U s = s"
proof (cases s rule: rev_cases)
  case Nil
  then show ?thesis by simp
next
  case (snoc ys y)
  from assms(1) have l: "dropWhile (u_isspace U) s = s"
    by (cases s) auto
  from snoc assms have "dropWhile (u_isspace U) (rev s) = rev s"
    by simp
  with l show ?thesis
    by (simp add: ustrip_def)
qed

lemma set_ustrip: "set (ustrip U s) \<subseteq> set s"
proof -
  have "set (rev (dropWhile P (rev t))) \<subseteq> set t" for t :: ustr and P
    using set_dropWhileD [of _ P "rev t"] by auto
  moreover have "set (dropWhile P s) \<subseteq> set s" for P
    using set_dropWhileD [of _ P s] by auto
  ultimately show ?thesis unfolding ustrip_def by blast
qed

lemma set_replace_dunder: "set (replace_dunder s) \<subseteq> set s"
  by (induction s rule: replace_dunder.induct) auto

lemma set_collapse_underscores: "set (collapse_underscores s) \<subseteq> set s"
proof (induction s rule: collapse_underscores.induct)
  case (1 s)
  show ?case
  proof (cases "sublist [0x5F, 0x5F] s")
    case True
    with 1 set_replace_dunder [of s] show ?thesis
      by (subst collapse_underscores.simps) auto
  next
    case False
    then show ?thesis by (subst collapse_underscores.simps) simp
  qed
qed

lemma collapse_underscores_none: "\<not> sublist [0x5F, 0x5F] (collapse_underscores s)"
proof (induction s rule: collapse_underscores.induct)
  case (1 s)
  show ?case
  proof (cases "sublist [0x5F, 0x5F] s")
    case True
    with 1 show ?thesis
      by (subst collapse_underscores.simps) simp
  next
    case False
    then show ?thesis by (subst collapse_underscores.simps) simp
  qed
qed

lemma collapse_underscores_id:
  "\<not> sublist [0x5F, 0x5F] s \<Longrightarrow> collapse_underscores s = s"
  by (subst collapse_underscores.simps) simp

lemma prefix_rstrip_char: "prefix (rstrip_char d s) s"
proof -
  have "suffix (dropWhile (\<lambda>c. c = d) (rev s)) (rev s)"
    by (rule suffix_dropWhile)
  then show ?thesis
    unfolding rstrip_char_def by (simp add: suffix_to_prefix)
qed

lemma rstrip_char_last: "rstrip_char d s \<noteq> [] \<Longrightarrow> last (rstrip_char d s) \<noteq> d"
  unfolding rstrip_char_def
  using hd_dropWhile [of "\<lambda>c. c = d" "rev s"]
  by (simp add: last_rev)

lemma rstrip_char_id: "s \<noteq> [] \<Longrightarrow> last s \<noteq> d \<Longrightarrow> rstrip_char d s = s"
  unfolding rstrip_char_def
  by (cases s rule: rev_cases) auto

lemma set_rstrip_char: "set (rstrip_char d s) \<subseteq> set s"
  using prefix_rstrip_char [of d s] by (rule set_mono_prefix)

lemma set_slice_to: "set (slice_to n xs) \<subseteq> set xs"
  unfolding slice_to_def by (auto dest: in_set_takeD)

lemma replace_char_absent: "a \<notin> set s \<Longrightarrow> replace_char a b s = s"
  unfolding replace_char_def by (induction s) auto

lemma truncate_props:
  fixes b :: "'a list" and m :: int
  assumes "0 \<le> m"
  shows "prefix (if int (length b) > m then slice_to m b else b) b"
    and "int (length (if int (length b) > m then slice_to m b else b)) \<le> m"
  using assms by (auto simp: slice_to_def take_is_prefix)

text \<open>Two adjacent equal elements, by position.\<close>

lemma sublist_pair_nth:
  "sublist [a, b] s \<longleftrightarrow> (\<exists>i. Suc i < length s \<and> s ! i = a \<and> s ! Suc i = b)"
proof
  assume "sublist [a, b] s"
  then obtain ps ss where s: "s = ps @ [a, b] @ ss" by (auto simp: sublist_def)
  have "Suc (length ps) < length s" "s ! length ps = a" "s ! Suc (length ps) = b"
    unfolding s by (simp_all add: nth_append)
  then show "\<exists>i. Suc i < length s \<and> s ! i = a \<and> s ! Suc i = b" by blast
next
  assume "\<exists>i. Suc i < length s \<and> s ! i = a \<and> s ! Suc i = b"
  then obtain i where i: "Suc i < length s" "s ! i = a" "s ! Suc i = b" by blast
  then have "s = take i s @ [a, b] @ drop (Suc (Suc i)) s"
    by (metis Cons_nth_drop_Suc Suc_lessD append_Cons append_Nil append_take_drop_id)
  then show "sublist [a, b] s" unfolding sublist_def by blast
qed

lemma ustr_tokens:
  "ustr ''unknown_file'' = [117, 110, 107, 110, 111, 119, 110, 95, 102, 105, 108, 101]"
  "ustr ''file'' = [102, 105, 108, 101]"
  by (simp_all add: ustr_def)

lemma token_props:
  assumes "python_tables U" and "t = ustr ''unknown_file'' \<or> t = ustr ''file''"
  shows "\<forall>c\<in>set t. c < 128" and "\<forall>c\<in>set t. keep_char U c"
    and "u_lower U t = t" and "\<not> sublist [0x5F, 0x5F] t"
    and "t \<noteq> []" and "last t \<noteq> 0x5F" and "length t \<le> 12" and "0x130 \<notin> set t"
proof -
  from assms(2) show a: "\<forall>c\<in>set t. c < 128" by (auto simp: ustr_tokens)
  from assms(2) show "\<forall>c\<in>set t. keep_char U c"
    by (auto simp: ustr_tokens keep_char_def python_tables_ascii(1) [OF assms(1)])
  from assms(2) have "map ascii_lower t = t" by (auto simp: ustr_tokens ascii_lower_def)
  with python_tables_ascii(2) [OF assms(1) a] show "u_lower U t = t" by simp
  from assms(2) show "\<not> sublist [0x5F, 0x5F] t"
    by (auto simp: ustr_tokens sublist_code prefix_code)
  from assms(2) show "t \<noteq> []" "last t \<noteq> 0x5F" "length t \<le> 12" "0x130 \<notin> set t"
    by (auto simp: ustr_tokens)
qed

lemma sanitize_filename_fixed:
  assumes py: "python_tables U"
    and ne: "s \<noteq> []"
    and ch: "\<forall>c\<in>set s. keep_char U c"
    and nd: "\<not> sublist [0x5F, 0x5F] s"
    and len: "int (length s) \<le> m"
    and la: "last s \<noteq> 0x5F"
    and lw: "u_lower U s = s"
  shows "sanitize_filename U m s = s"
proof -
  from ne ch have "\<not> u_isspace U (hd s)" "\<not> u_isspace U (last s)"
    by (auto simp: keep_not_space(1) [OF py])
  then have st: "ustrip U s = s" by (rule ustrip_no_space)
  have "0x20 \<notin> set s"
    using ch keep_not_space(2) [OF py] by blast
  then have rp: "replace_char 0x20 0x5F s = s"
    by (rule replace_char_absent)
  from ch have fl: "filter (keep_char U) s = s" by simp
  from ne la have rs: "rstrip_char 0x5F s = s" by (rule rstrip_char_id)
  show ?thesis
    using ne len
    by (simp add: sanitize_filename_def st rp fl collapse_underscores_id [OF nd] rs lw)
qed

text \<open>The string that reaches the final \<^verbatim>\<open>lower()\<close>.\<close>

lemma sanitize_filename_before_lower:
  assumes py: "python_tables U" and m: "4 \<le> m" and nb: "ustrip U x \<noteq> []"
  obtains e where "sanitize_filename U m x = u_lower U e"
    and "e \<noteq> []" and "\<forall>c\<in>set e. keep_char U c" and "\<not> sublist [0x5F, 0x5F] e"
    and "int (length e) \<le> m" and "last e \<noteq> 0x5F"
    and "set e \<subseteq> set x \<union> {0x5F} \<union> set (ustr ''file'')"
    and "filter (keep_char U) (replace_char 0x20 0x5F (ustrip U x)) = [] \<Longrightarrow> e = ustr ''file''"
proof -
  define a where "a = filter (keep_char U) (replace_char 0x20 0x5F (ustrip U x))"
  define b where "b = collapse_underscores a"
  define t where "t = (if int (length b) > m then slice_to m b else b)"
  define d where "d = rstrip_char 0x5F t"
  define e where "e = (if d = [] then ustr ''file'' else d)"
  note f = token_props [OF py, of "ustr ''file''"]
  from nb have "x \<noteq> []" by auto
  with nb have out: "sanitize_filename U m x = u_lower U e"
    by (simp add: sanitize_filename_def Let_def a_def b_def t_def d_def e_def)
  have pt: "prefix t b" and lt: "int (length t) \<le> m"
    using truncate_props [of m b] m by (simp_all add: t_def)
  have pd: "prefix d t" unfolding d_def by (rule prefix_rstrip_char)
  have sa: "set a \<subseteq> set x \<union> {0x5F}"
    using set_ustrip [of U x] by (auto simp: a_def replace_char_def)
  have sb: "set b \<subseteq> set a" unfolding b_def by (rule set_collapse_underscores)
  have sd: "set d \<subseteq> set b" using pd pt by (meson prefix_order.trans set_mono_prefix)
  from sb sd have kd: "\<forall>c\<in>set d. keep_char U c" by (auto simp: a_def)
  with f(2) have ke: "\<forall>c\<in>set e. keep_char U c" by (simp add: e_def)
  have nb': "\<not> sublist [0x5F, 0x5F] b" unfolding b_def by (rule collapse_underscores_none)
  have "\<not> sublist [0x5F, 0x5F] d"
    using nb' pd pt by (meson prefix_imp_sublist prefix_order.trans sublist_order.order.trans)
  with f(4) have ns: "\<not> sublist [0x5F, 0x5F] e" by (simp add: e_def)
  have "length d \<le> length t" using pd by (rule prefix_length_le)
  with lt m f(7) have le: "int (length e) \<le> m"
    by (auto simp: e_def ustr_tokens)
  from f(5) have e0: "e \<noteq> []" by (simp add: e_def)
  have el: "last e \<noteq> 0x5F"
    using rstrip_char_last [of "0x5F" t] f(6) by (simp add: e_def d_def)
  from sa sb sd have se: "set e \<subseteq> set x \<union> {0x5F} \<union> set (ustr ''file'')"
    by (auto simp: e_def)
  have dr: "e = ustr ''file''" if "a = []"
  proof -
    have "b = []" unfolding b_def that
      by (rule collapse_underscores_id) (simp add: sublist_code)
    then have "d = []" by (simp add: d_def t_def rstrip_char_def slice_to_def)
    then show ?thesis by (simp add: e_def)
  qed
  from out e0 ke ns le el se dr show ?thesis
    unfolding a_def by (rule that)
qed

lemma lower_shape:
  assumes py: "python_tables U" and ni: "0x130 \<notin> set e"
    and e0: "e \<noteq> []" and ke: "\<forall>c\<in>set e. keep_char U c"
    and ns: "\<not> sublist [0x5F, 0x5F] e" and el: "last e \<noteq> 0x5F"
  shows "u_lower U e \<noteq> []" and "\<forall>c\<in>set (u_lower U e). keep_char U c"
    and "\<not> sublist [0x5F, 0x5F] (u_lower U e)" and "last (u_lower U e) \<noteq> 0x5F"
proof -
  note L = python_tables_lower [OF py ni]
  from L(1) e0 show o0: "u_lower U e \<noteq> []" by auto
  show "\<forall>c\<in>set (u_lower U e). keep_char U c"
  proof
    fix c assume "c \<in> set (u_lower U e)"
    then obtain i where i: "i < length e" "c = u_lower U e ! i"
      using L(1) by (auto simp: in_set_conv_nth)
    with ke have "keep_char U (e ! i)" by simp
    with L(4-6) [OF i(1)] i(2) show "keep_char U c"
      by (auto simp: keep_char_def)
  qed
  show "\<not> sublist [0x5F, 0x5F] (u_lower U e)"
  proof
    assume "sublist [0x5F, 0x5F] (u_lower U e)"
    then obtain i where i: "Suc i < length (u_lower U e)"
      "u_lower U e ! i = 0x5F" "u_lower U e ! Suc i = 0x5F"
      unfolding sublist_pair_nth by blast
    with L(1) have "Suc i < length e" by simp
    with i L(5) [of i] L(5) [of "Suc i"] have "e ! i = 0x5F" "e ! Suc i = 0x5F"
      by simp_all
    with \<open>Suc i < length e\<close> have "sublist [0x5F, 0x5F] e"
      unfolding sublist_pair_nth by blast
    with ns show False by simp
  qed
  from e0 L(1) o0 have "last (u_lower U e) = u_lower U e ! (length e - 1)"
    by (simp add: last_conv_nth)
  moreover from e0 have "last e = e ! (length e - 1)" by (simp add: last_conv_nth)
  ultimately show "last (u_lower U e) \<noteq> 0x5F"
    using el e0 L(5) [of "length e - 1"] by simp
qed

lemma sanitize_filename_shape:
  assumes py: "python_tables U" and m: "12 \<le> m" and ni: "0x130 \<notin> set x"
  shows "sanitize_filename U m x \<noteq> [] \<and>
         (\<forall>c\<in>set (sanitize_filename U m x). keep_char U c) \<and>
         \<not> sublist [0x5F, 0x5F] (sanitize_filename U m x) \<and>
         int (length (sanitize_filename U m x)) \<le> m \<and>
         last (sanitize_filename U m x) \<noteq> 0x5F \<and>
         u_lower U (sanitize_filename U m x) = sanitize_filename U m x"
proof (cases "ustrip U x = []")
  case True
  then have "sanitize_filename U m x = ustr ''unknown_file''"
    by (simp add: sanitize_filename_def)
  with token_props [OF py, of "ustr ''unknown_file''"] m show ?thesis by simp
next
  case False
  from m have "4 \<le> m" by simp
  from py this False obtain e where out: "sanitize_filename U m x = u_lower U e"
    and e: "e \<noteq> []" "\<forall>c\<in>set e. keep_char U c" "\<not> sublist [0x5F, 0x5F] e"
      "int (length e) \<le> m" "last e \<noteq> 0x5F"
      "set e \<subseteq> set x \<union> {0x5F} \<union> set (ustr ''file'')"
    by (rule sanitize_filename_before_lower)
  from e(6) ni have ne: "0x130 \<notin> set e" by (auto simp: ustr_tokens)
  note L = python_tables_lower [OF py ne]
  note S = lower_shape [OF py ne e(1,2,3,5)]
  from S L(1,3) e(4) show ?thesis unfolding out by simp
qed

lemma sanitize_filename_ascii:
  assumes py: "python_tables U" and m: "12 \<le> m" and a: "\<forall>c\<in>set x. c < 128"
  shows "\<forall>c\<in>set (sanitize_filename U m x).
          (97 \<le> c \<and> c \<le> 122) \<or> (48 \<le> c \<and> c \<le> 57) \<or> c = 0x5F \<or> c = 0x2D"
proof -
  have "\<exists>e. sanitize_filename U m x = map ascii_lower e \<and> (\<forall>c\<in>set e. c < 128 \<and> keep_char U c)"
  proof (cases "ustrip U x = []")
    case True
    then have "sanitize_filename U m x = ustr ''unknown_file''"
      by (simp add: sanitize_filename_def)
    moreover note t = token_props [OF py, of "ustr ''unknown_file''"]
    moreover from t(1) have "map ascii_lower (ustr ''unknown_file'') = ustr ''unknown_file''"
      using python_tables_ascii(2) [OF py t(1)] t(3) by simp
    ultimately show ?thesis using t(1,2) by (metis (no_types, lifting))
  next
    case False
    from m have "4 \<le> m" by simp
    from py this False obtain e where out: "sanitize_filename U m x = u_lower U e"
      and e: "\<forall>c\<in>set e. keep_char U c"
        "set e \<subseteq> set x \<union> {0x5F} \<union> set (ustr ''file'')"
      by (rule sanitize_filename_before_lower)
    from e(2) a have ea: "\<forall>c\<in>set e. c < 128" by (auto simp: ustr_tokens)
    with python_tables_ascii(2) [OF py] out have "sanitize_filename U m x = map ascii_lower e"
      by simp
    with ea e(1) show ?thesis by blast
  qed
  then obtain e where out: "sanitize_filename U m x = map ascii_lower e"
    and e: "\<forall>c\<in>set e. c < 128 \<and> keep_char U c" by blast
  show ?thesis
  proof
    fix c assume "c \<in> set (sanitize_filename U m x)"
    then obtain d where d: "d \<in> set e" "c = ascii_lower d" unfolding out by auto
    with e have "d < 128" "keep_char U d" by blast+
    with python_tables_ascii(1) [OF py, of d]
    have "(48 \<le> d \<and> d \<le> 57) \<or> (65 \<le> d \<and> d \<le> 90) \<or> (97 \<le> d \<and> d \<le> 122) \<or>
        d = 0x5F \<or> d = 0x2D"
      by (auto simp: keep_char_def)
    then show "(97 \<le> c \<and> c \<le> 122) \<or> (48 \<le> c \<and> c \<le> 57) \<or> c = 0x5F \<or> c = 0x2D"
      unfolding d(2) ascii_lower_def by auto
  qed
qed

lemma sanitize_filename_dropped:
  assumes py: "python_tables U" and m: "4 \<le> m" and ne: "ustrip U x \<noteq> []"
    and dr: "\<forall>c\<in>set (ustrip U x). \<not> keep_char U c \<and> c \<noteq> 0x20"
  shows "sanitize_filename U m x = ustr ''file''"
proof -
  from dr have "0x20 \<notin> set (ustrip U x)" by blast
  then have r: "replace_char 0x20 0x5F (ustrip U x) = ustrip U x"
    by (rule replace_char_absent)
  from dr have f: "filter (keep_char U) (replace_char 0x20 0x5F (ustrip U x)) = []"
    unfolding r by (simp add: filter_empty_conv)
  from py m ne obtain e where "sanitize_filename U m x = u_lower U e"
    and "filter (keep_char U) (replace_char 0x20 0x5F (ustrip U x)) = [] \<Longrightarrow> e = ustr ''file''"
    by (rule sanitize_filename_before_lower) blast
  with f token_props(3) [OF py, of "ustr ''file''"] show ?thesis by simp
qed

lemma tab_lower_map:
  "0x130 \<notin> set s \<Longrightarrow> concat (map tab_lower_char s) = map tab_lower1 s"
  by (induction s) (auto simp: tab_lower_char_def tab_lower1_def)

lemma tab_lower1_props:
  "n \<noteq> 0x130 \<Longrightarrow> tab_lower1 n \<noteq> 0x130"
  "tab_lower1 (tab_lower1 n) = tab_lower1 n"
  "tab_isalnum n \<Longrightarrow> tab_isalnum (tab_lower1 n)"
  "(tab_lower1 n = 0x5F) = (n = 0x5F)"
  "(tab_lower1 n = 0x2D) = (n = 0x2D)"
  "n < 128 \<Longrightarrow> tab_lower1 n = ascii_lower n"
  by (auto simp: tab_lower1_def tab_isalnum_def ascii_lower_def)

lemma python_tables_tabulated: "python_tables tabulated"
proof -
  have l: "u_lower tabulated s = map tab_lower1 s" if "0x130 \<notin> set s" for s
    using that by (simp add: tabulated_def tab_lower_map)
  have a: "\<forall>c. u_isalnum tabulated c \<longrightarrow> \<not> u_isspace tabulated c"
    by (auto simp: tabulated_def tab_isalnum_def tab_isspace_def)
  have b: "u_isspace tabulated 0x20 \<and> \<not> u_isspace tabulated 0x5F \<and> \<not> u_isspace tabulated 0x2D"
    by (simp add: tabulated_def tab_isspace_def)
  have c: "\<forall>c < 128. u_isalnum tabulated c =
          ((48 \<le> c \<and> c \<le> 57) \<or> (65 \<le> c \<and> c \<le> 90) \<or> (97 \<le> c \<and> c \<le> 122))"
    by (auto simp: tabulated_def tab_isalnum_def)
  have d: "\<forall>s. (\<forall>c\<in>set s. c < 128) \<longrightarrow> u_lower tabulated s = map ascii_lower s"
  proof (intro allI impI)
    fix s :: ustr assume s: "\<forall>c\<in>set s. c < 128"
    then have "0x130 \<notin> set s" by auto
    with s show "u_lower tabulated s = map ascii_lower s"
      by (simp add: l tab_lower1_props(6))
  qed
  have e: "\<forall>s. 0x130 \<notin> set s \<longrightarrow>
          length (u_lower tabulated s) = length s \<and>
          0x130 \<notin> set (u_lower tabulated s) \<and>
          u_lower tabulated (u_lower tabulated s) = u_lower tabulated s \<and>
          (\<forall>i < length s.
             (u_isalnum tabulated (s ! i) \<longrightarrow> u_isalnum tabulated (u_lower tabulated s ! i)) \<and>
             (u_lower tabulated s ! i = 0x5F) = (s ! i = 0x5F) \<and>
             (u_lower tabulated s ! i = 0x2D) = (s ! i = 0x2D))"
  proof (intro allI impI)
    fix s :: ustr assume s: "0x130 \<notin> set s"
    have n: "0x130 \<notin> set (map tab_lower1 s)"
    proof
      assume "0x130 \<in> set (map tab_lower1 s)"
      then obtain c where "c \<in> set s" "tab_lower1 c = 0x130" by auto
      with s tab_lower1_props(1) [of c] show False by metis
    qed
    have i: "map tab_lower1 (map tab_lower1 s) = map tab_lower1 s"
      by (simp add: tab_lower1_props(2))
    have p: "\<forall>i < length s.
             (tab_isalnum (s ! i) \<longrightarrow> tab_isalnum (map tab_lower1 s ! i)) \<and>
             (map tab_lower1 s ! i = 0x5F) = (s ! i = 0x5F) \<and>
             (map tab_lower1 s ! i = 0x2D) = (s ! i = 0x2D)"
      by (simp add: tab_lower1_props)
    from n i p show "length (u_lower tabulated s) = length s \<and>
          0x130 \<notin> set (u_lower tabulated s) \<and>
          u_lower tabulated (u_lower tabulated s) = u_lower tabulated s \<and>
          (\<forall>i < length s.
             (u_isalnum tabulated (s ! i) \<longrightarrow> u_isalnum tabulated (u_lower tabulated s ! i)) \<and>
             (u_lower tabulated s ! i = 0x5F) = (s ! i = 0x5F) \<and>
             (u_lower tabulated s ! i = 0x2D) = (s ! i = 0x2D))"
      unfolding l [OF s] l [OF n] by (simp add: tabulated_def)
  qed
  from a b c d e show ?thesis unfolding python_tables_def by blast
qed

lemmas tab_defs = tabulated_def tab_isspace_def tab_isalnum_def tab_lower_char_def

lemma no_dunder: "0x5F \<notin> set s \<Longrightarrow> collapse_underscores s = s"
proof (rule collapse_underscores_id)
  assume "0x5F \<notin> set s"
  then show "\<not> sublist [0x5F, 0x5F] s"
    by (auto simp: sublist_def)
qed

lemma sanitize_e_acute: "sanitize_filename tabulated MAX_FILENAME_LENGTH [0xE9] = [0xE9]"
  by (simp add: sanitize_filename_def MAX_FILENAME_LENGTH_def ustrip_def tab_defs
      replace_char_def keep_char_def no_dunder rstrip_char_def)

lemma sanitize_dotted_I:
  "sanitize_filename tabulated MAX_FILENAME_LENGTH [0x130] = [0x69, 0x307]"
  by (simp add: sanitize_filename_def MAX_FILENAME_LENGTH_def ustrip_def tab_defs
      replace_char_def keep_char_def no_dunder rstrip_char_def)

lemma sanitize_i_dot:
  "sanitize_filename tabulated MAX_FILENAME_LENGTH [0x69, 0x307] = [0x69]"
  by (simp add: sanitize_filename_def MAX_FILENAME_LENGTH_def ustrip_def tab_defs
      replace_char_def keep_char_def no_dunder rstrip_char_def)

lemma length_lower_dotted_I:
  "length (concat (replicate n (tab_lower_char 0x130))) = 2 * n"
  by (induction n) (simp_all add: tab_lower_char_def)

lemma sanitize_dotted_I_run:
  "length (sanitize_filename tabulated MAX_FILENAME_LENGTH (replicate 50 0x130)) = 100"
proof -
  let ?s = "replicate 50 (0x130 :: codepoint)"
  have ne: "?s \<noteq> []" by simp
  have h: "hd ?s = 0x130" and l: "last ?s = 0x130" by simp_all
  have st: "ustrip tabulated ?s = ?s"
    by (rule ustrip_no_space) (simp_all only: h l, simp_all add: tab_defs)
  have rp: "replace_char 0x20 0x5F ?s = ?s"
    by (rule replace_char_absent) simp
  have fl: "filter (keep_char tabulated) ?s = ?s"
    by (simp add: keep_char_def tab_defs)
  have cl: "collapse_underscores ?s = ?s"
    by (rule no_dunder) simp
  have rs: "rstrip_char 0x5F ?s = ?s"
    by (rule rstrip_char_id) (simp_all only: l, simp_all)
  have "sanitize_filename tabulated MAX_FILENAME_LENGTH ?s = u_lower tabulated ?s"
    unfolding sanitize_filename_def Let_def st rp fl cl
    using ne by (simp add: MAX_FILENAME_LENGTH_def rs)
  then show ?thesis
    by (simp add: tabulated_def length_lower_dotted_I)
qed

lemma sanitize_blank_short_max: "sanitize_filename tabulated 5 [] = ustr ''unknown_file''"
  by (simp add: sanitize_filename_def)

section \<open>Facts about generate_query_variations\<close>

lemma split_once_last:
  "last (split_once d s) = (if d \<in> set s then tl (dropWhile (\<lambda>c. c \<noteq> d) s) else s)"
  by (simp add: split_once_def)

lemma split_once_after:
  assumes "d \<in> set s"
  shows "\<exists>before. d \<notin> set before \<and> s = before @ d # last (split_once d s)"
proof -
  from assms have "dropWhile (\<lambda>c. c \<noteq> d) s \<noteq> []" by (simp add: dropWhile_eq_Nil_conv)
  moreover from this have "hd (dropWhile (\<lambda>c. c \<noteq> d) s) = d"
    using hd_dropWhile [of "\<lambda>c. c \<noteq> d" s] by simp
  ultimately have "dropWhile (\<lambda>c. c \<noteq> d) s = d # tl (dropWhile (\<lambda>c. c \<noteq> d) s)"
    by (cases "dropWhile (\<lambda>c. c \<noteq> d) s") auto
  then have "s = takeWhile (\<lambda>c. c \<noteq> d) s @ d # last (split_once d s)"
    using assms takeWhile_dropWhile_id [of "\<lambda>c. c \<noteq> d" s] by (simp add: split_once_last)
  moreover have "d \<notin> set (takeWhile (\<lambda>c. c \<noteq> d) s)"
    by (auto dest: set_takeWhileD)
  ultimately show ?thesis by blast
qed

lemma parse_lines_from:
  "\<forall>v\<in>set (parse_lines acc ls). v \<in> set acc \<or> (\<exists>l\<in>set ls. from_line v l)"
proof (induction ls arbitrary: acc)
  case Nil
  then show ?case by simp
next
  case (Cons l ls)
  show ?case
  proof (cases "strip l \<noteq> [] \<and> starts_with_number (strip l) \<and>
      strip (last (split_once (CHR ''.'') (strip l))) \<noteq> []")
    case True
    then have "parse_lines acc (l # ls) =
        parse_lines (acc @ [strip (last (split_once (CHR ''.'') (strip l)))]) ls"
      by (simp add: Let_def)
    moreover have "from_line (strip (last (split_once (CHR ''.'') (strip l)))) l"
      using True by (simp add: from_line_def)
    ultimately show ?thesis
      using Cons.IH [of "acc @ [strip (last (split_once (CHR ''.'') (strip l)))]"]
      by auto
  next
    case False
    then have "parse_lines acc (l # ls) = parse_lines acc ls"
      by (auto simp: Let_def)
    with Cons.IH [of acc] show ?thesis by auto
  qed
qed

lemma parse_variations_from:
  "v \<in> set (parse_variations t) \<Longrightarrow> \<exists>l\<in>set (split_on (CHR 0x0A) (strip t)). from_line v l"
  using parse_lines_from [of "[]" "split_on (CHR 0x0A) (strip t)"]
  by (auto simp: parse_variations_def Let_def)

lemmas ai_defs = generate_query_variations_def parse_variations_def starts_with_number_def
  split_once_def get_or_def slice_to_def isdigit_def

lemma parse_sample_response:
  "parse_variations sample_response = [''best cats'', ''cats? why. not'', ''10) ten cats'']"
proof -
  have t: "strip sample_response =
     ''Here are the variations:'' @ [CHR 0x0A] @
     ''1. best cats'' @ [CHR 0x0A] @
     '' 2. cats? why. not '' @ [CHR 0x0A] @
     ''3.'' @ [CHR 0x0A] @
     ''10) ten cats''"
    by (simp add: sample_response_def strip_defs)
  have s: "strip ''Here are the variations:'' = ''Here are the variations:''"
    "strip ''1. best cats'' = ''1. best cats''"
    "strip '' best cats'' = ''best cats''"
    "strip '' 2. cats? why. not '' = ''2. cats? why. not''"
    "strip '' cats? why. not'' = ''cats? why. not''"
    "strip ''3.'' = ''3.''"
    "strip ''10) ten cats'' = ''10) ten cats''"
    by (simp_all add: strip_defs)
  show ?thesis
    unfolding parse_variations_def t
    by (simp add: s starts_with_number_def split_once_def isdigit_def Let_def)
qed

section \<open>Facts about save_search_result\<close>

lemma oversized_not_recognised:
  assumes "db_connect db"
    and "db_insert_one db (FullDocument data) = Inl (DocumentTooLarge message)"
    and "\<not> sublist ''DocumentTooLarge'' message"
  shows "save_search_result db collection data = (None, collection)"
  using assms by (simp add: save_search_result_def document_too_large_def)

lemma oversize_message_text: "\<not> sublist ''DocumentTooLarge'' oversize_message"
  unfolding oversize_message_def by code_simp

section \<open>Facts about the search endpoint\<close>

lemma fetch_multiple_grand_total:
  "ar_grand_total (fetch_multiple_queries_aggregated cfg sv queries target) =
     ar_total_processed_comments (fetch_multiple_queries_aggregated cfg sv queries target) +
     ar_total_processed_replies (fetch_multiple_queries_aggregated cfg sv queries target)"
  by (simp add: fetch_multiple_queries_aggregated_def Let_def)

lemma save_unified_data_document:
  assumes "save_unified_data db collection batch_id now query videos_data unique_comments
      unique_count total_replies total_comments sources = (label, doc, collection')"
  shows "cd_total_comments doc = total_comments"
    and "cd_total_replies doc = total_replies"
    and "cd_grand_total doc = total_comments + total_replies"
    and "cd_unique_comments doc = unique_count"
    and "pi_duplicates_removed (cd_processing_info doc) = total_comments - unique_count"
    and "(label, collection') =
      (case save_search_result db collection (as_search_data doc) of
         (Some inserted_id, c) \<Rightarrow> (''mongodb:'' @ inserted_id, c)
       | (None, c) \<Rightarrow> (''files_only'', c))"
  using assms
  by (auto simp: save_unified_data_def Let_def split: prod.splits option.splits)

lemma sample_aggregation:
  "ar_total_processed_comments
     (fetch_multiple_queries_aggregated default_config replying_services [''cats'']
        (Some 50000)) = 2"
  "ar_total_processed_replies
     (fetch_multiple_queries_aggregated default_config replying_services [''cats'']
        (Some 50000)) = 2"
  "ar_unique_count
     (fetch_multiple_queries_aggregated default_config replying_services [''cats'']
        (Some 50000)) = 1"
  by code_simp+

lemma sample_search_saves:
  "fst (snd (search default_config None replying_services accepting_database []
         ''ab12cd34'' ''2025-01-01T00:00:00'' sample_request)) \<noteq> None"
  by code_simp

section \<open>Claims about deduplication\<close>

text \<open>
  C1 asks that no entry of the unique-comment list hold two replies with the same trimmed
  text. The texts of the entries themselves are pairwise distinct
  (\<open>unique_texts_distinct\<close>), but the reply loop tests each reply against the list of
  reply texts taken before the loop, which is not extended as replies are appended: one
  comment carrying two replies with the same text keeps both.
\<close>

theorem duplicate_replies_kept:
  "map (\<lambda>e. map ur_text (uc_replies e))
     (fst (get_unique_comments_unified
        [sample_video [sample_comment ''ann'' ''Great video''
           [sample_reply ''bob'' ''agreed'', sample_reply ''cy'' ''agreed'']]])) =
   [[''agreed'', ''agreed'']]"
proof -
  have s: "strip ''Great video'' = ''Great video''" "strip ''agreed'' = ''agreed''"
    by (simp_all add: strip_defs)
  show ?thesis
    by (simp add: sample_defs unique_defs s Let_def)
qed

section \<open>Claims about short comments and replies\<close>

text \<open>
  C2. In \<^verbatim>\<open>get_unique_comments_unified\<close> a comment whose trimmed text is empty or
  shorter than 3 characters is discarded entirely: no entry of the unique set has a text
  shorter than 3 characters, the trimmed text of an input comment is the text of an entry
  exactly when it has at least 3 characters, the result (entries and both counters) is
  the same as on the input without the short comments, and the comment counter is the
  number of entries. A reply is stored only when its trimmed text is longer than 3
  characters: every stored reply text has more than 3 characters. So "no" is excluded,
  "wow" is kept, and the 3-character reply "yes" is excluded.
\<close>

theorem short_comments_and_replies_excluded:
  "(\<forall>e\<in>set (fst (get_unique_comments_unified videos)).
      3 \<le> length (uc_text e) \<and> (\<forall>r\<in>set (uc_replies e). 3 < length (ur_text r))) \<and>
   (\<forall>v\<in>set videos. \<forall>c\<in>set (v_comments v).
      (strip (c_text c) \<in> uc_text ` set (fst (get_unique_comments_unified videos))) =
      (3 \<le> length (strip (c_text c)))) \<and>
   get_unique_comments_unified (map drop_short videos) = get_unique_comments_unified videos \<and>
   fst (snd (get_unique_comments_unified videos)) =
      int (length (fst (get_unique_comments_unified videos)))"
proof -
  define st where "st = foldl process_video ([], 0, 0) videos"
  have R: "get_unique_comments_unified videos = (map snd (fst st), fst (snd st), snd (snd st))"
    by (simp add: get_unique_comments_unified_def st_def split: prod.splits)
  have ok: "\<forall>p\<in>set (fst st). entry_ok p"
    unfolding st_def by (rule foldl_process_video_ok)
  have texts: "map uc_text (map snd (fst st)) = map fst (fst st)"
    using ok by (rule unique_texts_are_keys)
  have keys: "fst ` set (fst st) = (\<Union>v\<in>set videos. \<Union>c\<in>set (v_comments v). kept_text c)"
    unfolding st_def by (simp add: foldl_process_video_keys)
  have a: "\<forall>e\<in>set (fst (get_unique_comments_unified videos)).
      3 \<le> length (uc_text e) \<and> (\<forall>r\<in>set (uc_replies e). 3 < length (ur_text r))"
    using ok unfolding R by (auto simp: entry_ok_def)
  have "uc_text ` set (fst (get_unique_comments_unified videos)) = fst ` set (fst st)"
    using texts unfolding R by (metis fst_conv set_map)
  then have b: "\<forall>v\<in>set videos. \<forall>c\<in>set (v_comments v).
      (strip (c_text c) \<in> uc_text ` set (fst (get_unique_comments_unified videos))) =
      (3 \<le> length (strip (c_text c)))"
    unfolding keys by (auto simp: kept_text_def split: if_splits)
  have c: "get_unique_comments_unified (map drop_short videos) =
      get_unique_comments_unified videos"
    by (simp add: get_unique_comments_unified_def foldl_process_video_drop_short)
  have d: "fst (snd (get_unique_comments_unified videos)) =
      int (length (fst (get_unique_comments_unified videos)))"
    unfolding R using foldl_process_video_count [of videos] by (simp add: st_def)
  from a b c d show ?thesis by blast
qed

theorem short_comments_and_replies_excluded_witness:
  "map uc_text (fst (get_unique_comments_unified sample_videos)) = [''wow''] \<and>
   map (\<lambda>e. map ur_text (uc_replies e)) (fst (get_unique_comments_unified sample_videos)) =
     [[''yess'']] \<and>
   snd (get_unique_comments_unified sample_videos) = (1, 1) \<and>
   get_unique_comments_unified (map drop_short sample_videos) =
     get_unique_comments_unified sample_videos"
proof -
  have s: "strip ''no'' = ''no''" "strip '' wow '' = ''wow''" "strip ''agreed'' = ''agreed''"
    "strip ''yes'' = ''yes''" "strip ''yess'' = ''yess''"
    by (simp_all add: strip_defs)
  have "get_unique_comments_unified sample_videos =
     ([\<lparr> uc_author = ''cy'', uc_text = ''wow'', uc_likes = 1,
         uc_published_at = ''2025-01-01'', uc_author_profile = [], uc_source = ''youtube'',
         uc_video_title = ''Unknown'', uc_subreddit = [],
         uc_replies = [\<lparr> ur_author = ''eve'', ur_text = ''yess'', ur_likes = 0,
            ur_published_at = ''2025-01-01'', ur_author_profile = [],
            ur_source = ''youtube'' \<rparr>] \<rparr>], 1, 1)"
    by (simp add: sample_videos_def sample_defs unique_defs s Let_def)
  with short_comments_and_replies_excluded [of sample_videos] show ?thesis
    by simp
qed

section \<open>Claims about the attempt count\<close>

text \<open>
  C3 asks that \<^verbatim>\<open>attempts_made\<close> be the number of executions of the loop body on
  both exits. The value returned is \<^verbatim>\<open>attempt - 1\<close>, and the exit by \<^verbatim>\<open>break\<close>
  skips \<^verbatim>\<open>attempt += 1\<close>: when the target is reached the count is one short
  (\<open>attempts_made_by_exit\<close> gives both exits). With a target of 1 comment and a video
  search that returns one comment, the body runs once and \<^verbatim>\<open>attempts_made\<close> is 0.
\<close>

theorem attempts_made_on_target_reached:
  "fetch_all_comments_parallel default_config sample_services ''cats'' (Some 1) (Some 3) =
     Inr \<lparr> fr_videos = [sample_video [sample_comment ''ann'' ''Great video'' []]],
           fr_total_comments = 1, fr_total_replies = 0, fr_grand_total = 1,
           fr_sources = [''youtube'', ''reddit''], fr_errors = [],
           fr_target_achieved = True, fr_attempts_made = 0, fr_iterations = 1 \<rparr>"
  by (simp add: fetch_all_comments_parallel_def fetch_loop.simps attempt_body_def
      fetch_youtube_def fetch_reddit_def sample_services_def get_or_def count_replies_def
      sample_defs Let_def)

section \<open>Claims about search_subreddits\<close>

text \<open>
  C4, as stated, says the fixed candidate list has exactly 16 names and that a total
  failure gives the fallback list. The list in \<^verbatim>\<open>search_subreddits\<close> has 20: with
  every probe succeeding, an empty query and a limit of 20, the result ends with four
  names that are not among the 16. A failing probe is caught inside the loop and the
  name skipped, so when every probe fails the result is the empty list. The word added
  for the query "Tesla" is "tesla". And a negative limit counts from the end of the list:
  with limit -19 one name is returned.
\<close>

theorem search_subreddits_candidates_counterexample:
  "search_subreddits (\<lambda>name. True) (Some '''') 20 =
     [''all'', ''AskReddit'', ''todayilearned'', ''news'', ''worldnews'',
      ''technology'', ''science'', ''politics'', ''gaming'', ''movies'',
      ''music'', ''books'', ''sports'', ''food'', ''travel'', ''history'',
      ''personalfinance'', ''investing'', ''explainlikeimfive'', ''askscience''] \<and>
   ''personalfinance'' \<notin> set
     [''all'', ''AskReddit'', ''todayilearned'', ''news'', ''worldnews'',
      ''technology'', ''science'', ''politics'', ''gaming'', ''movies'',
      ''music'', ''books'', ''sports'', ''food'', ''travel'', ''history''] \<and>
   search_subreddits (\<lambda>name. False) (Some ''cats'') 10 = [] \<and>
   search_subreddits (\<lambda>name. name = ''Tesla'') (Some ''Tesla'') 10 = [] \<and>
   search_subreddits (\<lambda>name. name = ''tesla'') (Some ''Tesla'') 10 = [''tesla''] \<and>
   search_subreddits (\<lambda>name. True) (Some '''') (- 19) = [''all'']"
proof -
  have l: "lower ''Tesla'' = ''tesla''" "lower ''cats'' = ''cats''" "lower [] = []"
    by code_simp+
  have w: "split_ws ''tesla'' = [''tesla'']" "split_ws ''cats'' = [''cats'']" "split_ws [] = []"
    by (simp_all add: split_ws_def isspace_def)
  show ?thesis
    by (simp add: search_subreddits_def relevant_subreddits_def l w slice_to_def)
qed

text \<open>
  C4, amended. \<^verbatim>\<open>search_subreddits\<close> starts from a fixed list of 20 names (the 16 of
  the claim, then personalfinance, investing, explainlikeimfive, askscience), appends the
  words of the lowercased query that are longer than 3 characters, keeps the candidates
  whose existence probe succeeds, in order, and for a limit of at least 0 returns the
  first \<open>limit\<close> of them, so at most \<open>limit\<close> names, each of which passed the probe.
  When every probe fails the result is the empty list, not the fallback list.
\<close>

theorem search_subreddits_amended:
  assumes "0 \<le> limit"
  shows "search_subreddits probe (Some query) limit =
      take (nat limit) (filter probe
        ([''all'', ''AskReddit'', ''todayilearned'', ''news'', ''worldnews'',
          ''technology'', ''science'', ''politics'', ''gaming'', ''movies'',
          ''music'', ''books'', ''sports'', ''food'', ''travel'', ''history'',
          ''personalfinance'', ''investing'', ''explainlikeimfive'', ''askscience''] @
         filter (\<lambda>word. 3 < length word) (split_ws (lower query)))) \<and>
    int (length (search_subreddits probe (Some query) limit)) \<le> limit \<and>
    (\<forall>name\<in>set (search_subreddits probe (Some query) limit). probe name) \<and>
    ((\<forall>name. \<not> probe name) \<longrightarrow> search_subreddits probe (Some query) limit = [])"
proof -
  have a: "search_subreddits probe (Some query) limit =
      take (nat limit) (filter probe (relevant_subreddits @
         filter (\<lambda>word. 3 < length word) (split_ws (lower query))))"
    using assms by (simp add: search_subreddits_def slice_to_def)
  have b: "int (length (search_subreddits probe (Some query) limit)) \<le> limit"
    unfolding a using assms by simp
  have c: "\<forall>name\<in>set (search_subreddits probe (Some query) limit). probe name"
    unfolding a by (auto dest: in_set_takeD)
  have d: "search_subreddits probe (Some query) limit = []" if "\<forall>name. \<not> probe name"
    unfolding a using that by simp
  from a b c d show ?thesis unfolding relevant_subreddits_def by blast
qed


theorem search_subreddits_amended_witness:
  "search_subreddits (\<lambda>name. name \<noteq> ''news'') (Some ''Best  Tesla cars in USA'') 25 =
     [''all'', ''AskReddit'', ''todayilearned'', ''worldnews'', ''technology'',
      ''science'', ''politics'', ''gaming'', ''movies'', ''music'', ''books'',
      ''sports'', ''food'', ''travel'', ''history'', ''personalfinance'',
      ''investing'', ''explainlikeimfive'', ''askscience'', ''best'', ''tesla'', ''cars''] \<and>
   int (length (search_subreddits (\<lambda>name. name \<noteq> ''news'')
      (Some ''Best  Tesla cars in USA'') 25)) \<le> 25 \<and>
   search_subreddits (\<lambda>name. False) (Some ''Best  Tesla cars in USA'') 25 = []"
proof -
  have l: "lower ''Best  Tesla cars in USA'' = ''best  tesla cars in usa''"
    by code_simp
  have w: "split_ws ''best  tesla cars in usa'' = [''best'', ''tesla'', ''cars'', ''in'', ''usa'']"
    by (simp add: split_ws_def isspace_def)
  have p: "(0::int) \<le> 25" by simp
  from search_subreddits_amended [OF p, of "\<lambda>name. name \<noteq> ''news''" "''Best  Tesla cars in USA''"]
    search_subreddits_amended [OF p, of "\<lambda>name. False" "''Best  Tesla cars in USA''"]
  show ?thesis by (simp add: l w)
qed

section \<open>Claims about filter_comment_relevance\<close>

text \<open>
  C5. With the match count of the specification (the number of query terms that occur in
  the lowercased comment, plus one half for a single-term query whose first 4 characters
  occur in it), for every comment and every list of terms \<^verbatim>\<open>filter_comment_relevance\<close>
  judges the comment relevant exactly when there is more than one term and the count is
  at least \<open>max 1 (n div 2)\<close>, or there is exactly one term and the count is positive.
  The count kept by the code adds the half only for a term longer than 3 characters; the
  verdict is the same.
\<close>

theorem filter_comment_relevance_rule:
  "filter_comment_relevance comment_text query_terms \<longleftrightarrow>
     (length query_terms > 1 \<and>
        spec_match_count comment_text query_terms \<ge> of_nat (max 1 (length query_terms div 2))) \<or>
     (length query_terms = 1 \<and> spec_match_count comment_text query_terms > 0)"
proof (cases query_terms)
  case Nil
  then show ?thesis
    by (simp add: filter_comment_relevance_def matching_terms_def spec_match_count_def)
next
  case (Cons t ts)
  show ?thesis
  proof (cases ts)
    case Nil
    have "sublist (take 4 t) (lower comment_text)" if "sublist t (lower comment_text)"
      using that by (meson prefix_imp_sublist sublist_order.order.trans take_is_prefix)
    then show ?thesis
      using Cons Nil
      by (auto simp: filter_comment_relevance_def matching_terms_def spec_match_count_def Let_def)
  next
    case (Cons u us)
    with \<open>query_terms = t # ts\<close> show ?thesis
      by (simp add: filter_comment_relevance_def matching_terms_def spec_match_count_def Let_def)
  qed
qed

theorem filter_comment_relevance_rule_witness:
  "filter_comment_relevance ''I love my Tesl'' [''tesla''] \<and>
   \<not> filter_comment_relevance ''A cat'' [''cat'', ''dog'', ''cow'', ''pig''] \<and>
   filter_comment_relevance ''A cat, a dog'' [''cat'', ''dog'', ''cow'', ''pig'']"
proof -
  have l: "lower ''I love my Tesl'' = ''i love my tesl''" "lower ''A cat'' = ''a cat''"
    "lower ''A cat, a dog'' = ''a cat, a dog''"
    by code_simp+
  from filter_comment_relevance_rule [of "''I love my Tesl''" "[''tesla'']"]
    filter_comment_relevance_rule [of "''A cat''" "[''cat'', ''dog'', ''cow'', ''pig'']"]
    filter_comment_relevance_rule [of "''A cat, a dog''" "[''cat'', ''dog'', ''cow'', ''pig'']"]
  show ?thesis
    by (simp add: spec_match_count_def l sublist_code prefix_code)
qed

section \<open>Claims about validate_query\<close>

text \<open>
  C6. For every string, \<^verbatim>\<open>validate_query\<close> answers, in this order of priority:
  "Query cannot be empty" when the string is blank or only whitespace; "Query must be at
  least 2 characters long" when the trimmed length is below 2; "Query must be less than
  500 characters" when the trimmed length exceeds 500; "Query contains invalid
  characters" when the trimmed query holds one of the characters less-than,
  greater-than, double quote, single quote, ampersand; and "Query is valid" otherwise.
  A query of 500 characters is valid, one of 501 is not.
\<close>

theorem validate_query_cases:
  "(strip q = [] \<longrightarrow> validate_query q = (False, ''Query cannot be empty'')) \<and>
   (strip q \<noteq> [] \<and> length (strip q) < 2 \<longrightarrow>
      validate_query q = (False, ''Query must be at least 2 characters long'')) \<and>
   (500 < length (strip q) \<longrightarrow>
      validate_query q = (False, ''Query must be less than 500 characters'')) \<and>
   (2 \<le> length (strip q) \<and> length (strip q) \<le> 500 \<and>
      (\<exists>c \<in> set (strip q). c = CHR ''<'' \<or> c = CHR ''>'' \<or> c = CHR 0x22 \<or> c = CHR 0x27
          \<or> c = CHR ''&'') \<longrightarrow>
      validate_query q = (False, ''Query contains invalid characters'')) \<and>
   (2 \<le> length (strip q) \<and> length (strip q) \<le> 500 \<and>
      (\<forall>c \<in> set (strip q). c \<noteq> CHR ''<'' \<and> c \<noteq> CHR ''>'' \<and> c \<noteq> CHR 0x22 \<and> c \<noteq> CHR 0x27
          \<and> c \<noteq> CHR ''&'') \<longrightarrow>
      validate_query q = (True, ''Query is valid'')) \<and>
   validate_query (replicate 500 (CHR ''a'')) = (True, ''Query is valid'') \<and>
   validate_query (replicate 501 (CHR ''a'')) =
      (False, ''Query must be less than 500 characters'')"
proof -
  have a: "strip (replicate n (CHR ''a'')) = replicate n (CHR ''a'')" for n
    by (rule strip_replicate) (simp add: isspace_def)
  have b: "validate_query (replicate 500 (CHR ''a'')) = (True, ''Query is valid'')"
    by (simp add: validate_query_def a Let_def list_ex_iff invalid_chars_def)
  have c: "validate_query (replicate 501 (CHR ''a'')) =
      (False, ''Query must be less than 500 characters'')"
    by (simp add: validate_query_def a Let_def)
  have d: "strip q = [] \<longrightarrow> validate_query q = (False, ''Query cannot be empty'')"
    by (simp add: validate_query_def)
  have e: "strip q \<noteq> [] \<and> length (strip q) < 2 \<longrightarrow>
      validate_query q = (False, ''Query must be at least 2 characters long'')"
    by (auto simp: validate_query_def Let_def)
  have f: "500 < length (strip q) \<longrightarrow>
      validate_query q = (False, ''Query must be less than 500 characters'')"
    by (auto simp: validate_query_def Let_def)
  have g: "2 \<le> length (strip q) \<and> length (strip q) \<le> 500 \<and>
      (\<exists>c \<in> set (strip q). c = CHR ''<'' \<or> c = CHR ''>'' \<or> c = CHR 0x22 \<or> c = CHR 0x27
          \<or> c = CHR ''&'') \<longrightarrow>
      validate_query q = (False, ''Query contains invalid characters'')"
    by (auto simp: validate_query_def Let_def list_ex_iff invalid_chars_def)
  have h: "2 \<le> length (strip q) \<and> length (strip q) \<le> 500 \<and>
      (\<forall>c \<in> set (strip q). c \<noteq> CHR ''<'' \<and> c \<noteq> CHR ''>'' \<and> c \<noteq> CHR 0x22 \<and> c \<noteq> CHR 0x27
          \<and> c \<noteq> CHR ''&'') \<longrightarrow>
      validate_query q = (True, ''Query is valid'')"
    by (auto simp: validate_query_def Let_def list_ex_iff invalid_chars_def)
  from b c d e f g h show ?thesis by blast
qed

theorem validate_query_cases_witness:
  "validate_query ''   '' = (False, ''Query cannot be empty'') \<and>
   validate_query '' a '' = (False, ''Query must be at least 2 characters long'') \<and>
   validate_query (replicate 501 (CHR ''a'')) =
      (False, ''Query must be less than 500 characters'') \<and>
   validate_query ''cats & dogs'' = (False, ''Query contains invalid characters'') \<and>
   validate_query ''  cats and dogs '' = (True, ''Query is valid'')"
proof -
  have s1: "strip ''   '' = []"
    by (simp add: strip_def lstrip_def rstrip_def isspace_def)
  have s2: "strip '' a '' = ''a''"
    by (simp add: strip_def lstrip_def rstrip_def isspace_def)
  have s3: "strip ''cats & dogs'' = ''cats & dogs''"
    by (simp add: strip_def lstrip_def rstrip_def isspace_def)
  have s4: "strip ''  cats and dogs '' = ''cats and dogs''"
    by (simp add: strip_def lstrip_def rstrip_def isspace_def)
  show ?thesis
    using validate_query_cases [of "''   ''"] validate_query_cases [of "'' a ''"]
      validate_query_cases [of "''cats & dogs''"]
      validate_query_cases [of "''  cats and dogs ''"]
    by (simp add: s1 s2 s3 s4)
qed

section \<open>Claims about sanitize_filename\<close>

text \<open>
  C7, as stated, fails on four inputs. It asks that every output contain only a-z, 0-9,
  underscore and hyphen: \<^verbatim>\<open>str.isalnum\<close> accepts letters beyond
  ASCII, and U+00E9 (e with acute accent) comes back unchanged. It asks for idempotence
  and for a length of at most the configured maximum: \<^verbatim>\<open>lower()\<close> is applied
  after the truncation and turns U+0130 into the two code points U+0069 U+0307, of which
  the second is dropped by a second pass, and fifty U+0130 give a name of 100 code
  points against the default maximum of 50. And the token for blank input has 12
  characters, more than a configured maximum of 5.
\<close>

theorem sanitize_filename_counterexample:
  "sanitize_filename tabulated MAX_FILENAME_LENGTH [0xE9] = [0xE9] \<and>
   0xE9 \<notin> set (ustr ''abcdefghijklmnopqrstuvwxyz0123456789_-'') \<and>
   sanitize_filename tabulated MAX_FILENAME_LENGTH [0x130] = [0x69, 0x307] \<and>
   sanitize_filename tabulated MAX_FILENAME_LENGTH [0x69, 0x307] = [0x69] \<and>
   length (sanitize_filename tabulated MAX_FILENAME_LENGTH (replicate 50 0x130)) = 100 \<and>
   MAX_FILENAME_LENGTH = 50 \<and>
   length (sanitize_filename tabulated 5 []) = 12"
proof -
  have "0xE9 \<notin> set (ustr ''abcdefghijklmnopqrstuvwxyz0123456789_-'')"
    by (simp add: ustr_def)
  moreover have "length (sanitize_filename tabulated 5 []) = 12"
    by (simp add: sanitize_blank_short_max ustr_tokens)
  ultimately show ?thesis
    using sanitize_e_acute sanitize_dotted_I sanitize_i_dot sanitize_dotted_I_run
    by (simp add: MAX_FILENAME_LENGTH_def)
qed

text \<open>
  C7, amended. For tables with the properties of Python's built-ins listed in
  \<open>python_tables\<close>, a configured maximum length of at least 12 (the default is 50) and
  every string \<open>x\<close> that does not contain U+0130: sanitising is idempotent; every
  character of the output is an underscore, a hyphen, or alphanumeric in the sense of
  \<^verbatim>\<open>str.isalnum\<close>, and the output is unchanged by \<^verbatim>\<open>lower()\<close>; when \<open>x\<close> is
  ASCII the output holds only a-z, 0-9, underscore and hyphen; the output is no longer
  than the configured maximum, is not empty and does not end with an underscore; blank or
  whitespace-only input gives \<^verbatim>\<open>unknown_file\<close>; and input that is not blank but
  whose characters are all dropped gives \<^verbatim>\<open>file\<close>.
\<close>

theorem sanitize_filename_amended:
  assumes py: "python_tables U" and m: "12 \<le> m" and ni: "0x130 \<notin> set x"
  shows "sanitize_filename U m (sanitize_filename U m x) = sanitize_filename U m x \<and>
    (\<forall>c\<in>set (sanitize_filename U m x). u_isalnum U c \<or> c = 0x5F \<or> c = 0x2D) \<and>
    u_lower U (sanitize_filename U m x) = sanitize_filename U m x \<and>
    ((\<forall>c\<in>set x. c < 128) \<longrightarrow>
      (\<forall>c\<in>set (sanitize_filename U m x).
        (97 \<le> c \<and> c \<le> 122) \<or> (48 \<le> c \<and> c \<le> 57) \<or> c = 0x5F \<or> c = 0x2D)) \<and>
    int (length (sanitize_filename U m x)) \<le> m \<and>
    sanitize_filename U m x \<noteq> [] \<and>
    last (sanitize_filename U m x) \<noteq> 0x5F \<and>
    (ustrip U x = [] \<longrightarrow> sanitize_filename U m x = ustr ''unknown_file'') \<and>
    (ustrip U x \<noteq> [] \<and> (\<forall>c\<in>set (ustrip U x). \<not> keep_char U c \<and> c \<noteq> 0x20) \<longrightarrow>
      sanitize_filename U m x = ustr ''file'')"
proof -
  note sh = sanitize_filename_shape [OF py m ni]
  have idem: "sanitize_filename U m (sanitize_filename U m x) = sanitize_filename U m x"
    using sh by (intro sanitize_filename_fixed [OF py]) simp_all
  have chars: "\<forall>c\<in>set (sanitize_filename U m x). u_isalnum U c \<or> c = 0x5F \<or> c = 0x2D"
    using sh by (auto simp: keep_char_def)
  have ascii: "\<forall>c\<in>set (sanitize_filename U m x).
        (97 \<le> c \<and> c \<le> 122) \<or> (48 \<le> c \<and> c \<le> 57) \<or> c = 0x5F \<or> c = 0x2D"
    if "\<forall>c\<in>set x. c < 128"
    using py m that by (rule sanitize_filename_ascii)
  have blank: "sanitize_filename U m x = ustr ''unknown_file''" if "ustrip U x = []"
    using that by (simp add: sanitize_filename_def)
  have dropped: "sanitize_filename U m x = ustr ''file''"
    if "ustrip U x \<noteq> [] \<and> (\<forall>c\<in>set (ustrip U x). \<not> keep_char U c \<and> c \<noteq> 0x20)"
    using that m by (intro sanitize_filename_dropped [OF py]) simp_all
  from idem chars ascii blank dropped sh show ?thesis by blast
qed

theorem sanitize_filename_amended_witness:
  "sanitize_filename tabulated 50
     (sanitize_filename tabulated 50 (ustr ''Tesla Model 3 review!!'')) =
     sanitize_filename tabulated 50 (ustr ''Tesla Model 3 review!!'') \<and>
   int (length (sanitize_filename tabulated 50 (ustr ''Tesla Model 3 review!!''))) \<le> 50 \<and>
   last (sanitize_filename tabulated 50 (ustr ''Tesla Model 3 review!!'')) \<noteq> 0x5F \<and>
   sanitize_filename tabulated 50 (ustr ''   '') = ustr ''unknown_file'' \<and>
   sanitize_filename tabulated 50 (ustr ''!!!???'') = ustr ''file''"
proof -
  have m: "(12::int) \<le> 50" by simp
  have n1: "0x130 \<notin> set (ustr ''Tesla Model 3 review!!'')"
    and n2: "0x130 \<notin> set (ustr ''   '')" and n3: "0x130 \<notin> set (ustr ''!!!???'')"
    by (simp_all add: ustr_def)
  have s1: "ustrip tabulated (ustr ''   '') = []"
    by (simp add: ustrip_def ustr_def tab_defs)
  have s2: "ustrip tabulated (ustr ''!!!???'') = ustr ''!!!???''"
    by (simp add: ustrip_def ustr_def tab_defs)
  have "\<forall>c\<in>set (ustr ''!!!???''). \<not> keep_char tabulated c \<and> c \<noteq> 0x20"
    by (simp add: ustr_def keep_char_def tab_defs)
  then have k: "ustrip tabulated (ustr ''!!!???'') \<noteq> [] \<and>
      (\<forall>c\<in>set (ustrip tabulated (ustr ''!!!???'')). \<not> keep_char tabulated c \<and> c \<noteq> 0x20)"
    unfolding s2 by (simp add: ustr_def)
  note c2 = conjunct2
  note t = sanitize_filename_amended [OF python_tables_tabulated m n1]
  note a1 = t [THEN conjunct1]
  note a2 = t [THEN c2, THEN c2, THEN c2, THEN c2, THEN conjunct1]
  note a3 = t [THEN c2, THEN c2, THEN c2, THEN c2, THEN c2, THEN c2, THEN conjunct1]
  note b = sanitize_filename_amended [OF python_tables_tabulated m n2, THEN c2, THEN c2,
      THEN c2, THEN c2, THEN c2, THEN c2, THEN c2, THEN conjunct1, THEN mp, OF s1]
  note c = sanitize_filename_amended [OF python_tables_tabulated m n3, THEN c2, THEN c2,
      THEN c2, THEN c2, THEN c2, THEN c2, THEN c2, THEN c2, THEN mp, OF k]
  from a1 a2 a3 b c show ?thesis by (intro conjI)
qed

section \<open>Claims about generate_query_variations\<close>

text \<open>
  C8, as stated, says the returned list is never empty and never longer than \<open>n\<close>, for
  every \<open>n\<close>. The number of variations comes unchecked from the request; with
  \<open>n = 0\<close> and a response that parses, the slice \<^verbatim>\<open>variations[:0]\<close> is empty.
\<close>

theorem generate_query_variations_empty_counterexample:
  "generate_query_variations default_config
     (Some (\<lambda>query n. Inr ''1. best cat videos'')) ''cats'' (Some 0) = []"
proof -
  have s: "strip ''1. best cat videos'' = ''1. best cat videos''"
    "strip '' best cat videos'' = ''best cat videos''"
    by (simp_all add: strip_defs)
  show ?thesis
    by (simp add: ai_defs s Let_def)
qed

text \<open>
  C8, amended. For a number of variations \<open>n\<close> of at least 1 (the argument, or the
  configured default when it is absent): the result is the one-element list of the
  original query when the model is unavailable, when the generation call raises, or when
  no variation parses from the response; otherwise it is the first \<open>n\<close> parsed
  variations; so it is never empty and never longer than \<open>n\<close>. Every parsed
  variation is non-empty and comes from a line of the trimmed response that, once
  trimmed, has a digit among its first three characters: it is the trimmed text after the
  first period of that line, or the whole trimmed line when the line has no period.
\<close>

theorem generate_query_variations_amended:
  assumes n: "n = get_or num_variations (NUM_QUERY_VARIATIONS cfg)" and pos: "1 \<le> n"
  shows
   "generate_query_variations cfg None query num_variations = [query] \<and>
    ((\<exists>e. generate_content query n = Inl e) \<longrightarrow>
       generate_query_variations cfg (Some generate_content) query num_variations = [query]) \<and>
    (\<forall>text. generate_content query n = Inr text \<longrightarrow>
       generate_query_variations cfg (Some generate_content) query num_variations =
         (if parse_variations text = [] then [query]
          else take (nat n) (parse_variations text))) \<and>
    generate_query_variations cfg model query num_variations \<noteq> [] \<and>
    int (length (generate_query_variations cfg model query num_variations)) \<le> n \<and>
    (\<forall>v\<in>set (parse_variations text). v \<noteq> [] \<and>
       (\<exists>l\<in>set (split_on (CHR 0x0A) (strip text)).
          (\<exists>c\<in>set (take 3 (strip l)). isdigit c) \<and>
          ((\<exists>before after. CHR ''.'' \<notin> set before \<and> strip l = before @ CHR ''.'' # after \<and>
               v = strip after) \<or>
           (CHR ''.'' \<notin> set (strip l) \<and> v = strip l))))"
proof -
  have a: "generate_query_variations cfg None query num_variations = [query]"
    by (simp add: generate_query_variations_def)
  have b: "generate_query_variations cfg (Some g) query num_variations = [query]"
    if "g query n = Inl e" for g e
    using that n by (simp add: generate_query_variations_def)
  have c: "generate_query_variations cfg (Some g) query num_variations =
         (if parse_variations t = [] then [query] else take (nat n) (parse_variations t))"
    if "g query n = Inr t" for g t
    using that n pos by (simp add: generate_query_variations_def slice_to_def Let_def)
  have d: "generate_query_variations cfg model query num_variations \<noteq> [] \<and>
    int (length (generate_query_variations cfg model query num_variations)) \<le> n"
  proof (cases model)
    case None
    with a pos show ?thesis by simp
  next
    case (Some g)
    show ?thesis
    proof (cases "g query n")
      case (Inl e)
      with b [of g e] Some pos show ?thesis by simp
    next
      case (Inr t)
      with c [of g t] Some pos show ?thesis by auto
    qed
  qed
  have e: "v \<noteq> [] \<and>
       (\<exists>l\<in>set (split_on (CHR 0x0A) (strip text)).
          (\<exists>c\<in>set (take 3 (strip l)). isdigit c) \<and>
          ((\<exists>before after. CHR ''.'' \<notin> set before \<and> strip l = before @ CHR ''.'' # after \<and>
               v = strip after) \<or>
           (CHR ''.'' \<notin> set (strip l) \<and> v = strip l)))"
    if "v \<in> set (parse_variations text)" for v
  proof -
    from parse_variations_from [OF that] obtain l
      where l: "l \<in> set (split_on (CHR 0x0A) (strip text))" and f: "from_line v l"
      by blast
    from f have v: "v \<noteq> []" "\<exists>c\<in>set (take 3 (strip l)). isdigit c"
      "v = strip (last (split_once (CHR ''.'') (strip l)))"
      by (auto simp: from_line_def starts_with_number_def list_ex_iff)
    have "(\<exists>before after. CHR ''.'' \<notin> set before \<and> strip l = before @ CHR ''.'' # after \<and>
               v = strip after) \<or>
           (CHR ''.'' \<notin> set (strip l) \<and> v = strip l)"
    proof (cases "CHR ''.'' \<in> set (strip l)")
      case True
      from split_once_after [OF this] v(3) show ?thesis by blast
    next
      case False
      then have "last (split_once (CHR ''.'') (strip l)) = strip l"
        by (simp add: split_once_last)
      with v(3) False show ?thesis by (simp add: strip_idem)
    qed
    with v l show ?thesis by blast
  qed
  from a b c d e show ?thesis by blast
qed

theorem generate_query_variations_amended_witness:
  "generate_query_variations default_config (Some (\<lambda>query n. Inr sample_response))
     ''cats'' (Some 2) = [''best cats'', ''cats? why. not''] \<and>
   generate_query_variations default_config (Some (\<lambda>query n. Inl ''quota exceeded''))
     ''cats'' (Some 2) = [''cats''] \<and>
   generate_query_variations default_config None ''cats'' (Some 2) = [''cats'']"
proof -
  have n: "(2::int) = get_or (Some 2) (NUM_QUERY_VARIATIONS default_config)"
    by (simp add: get_or_def)
  have p: "(1::int) \<le> 2" by simp
  from generate_query_variations_amended [OF n p,
      where generate_content = "\<lambda>query n. Inr sample_response" and query = "''cats''"]
    generate_query_variations_amended [OF n p,
      where generate_content = "\<lambda>query n. Inl ''quota exceeded''" and query = "''cats''"]
  show ?thesis
    by (simp add: parse_sample_response)
qed

section \<open>Claims about save_search_result\<close>

text \<open>
  C9 asks that, when the insert of the full document fails because the document exceeds
  the size limit, the minimal-metadata document be inserted instead and its identifier
  returned. The handler recognises that failure by looking for the text
  "DocumentTooLarge" in \<^verbatim>\<open>str(e)\<close>, which is the message of the exception and does
  not hold the name of its class: with the message the driver gives to
  \<^verbatim>\<open>DocumentTooLarge\<close> the test fails, nothing is inserted and the result is absent,
  although the database would have accepted the minimal document
  (\<open>oversized_not_recognised\<close> gives this for every message without that text).
\<close>

theorem oversized_document_not_saved:
  "db_insert_one sample_database (FullDocument sample_data) =
     Inl (DocumentTooLarge oversize_message) \<and>
   db_insert_one sample_database (MinimalDocument (minimal_of sample_data)) = Inr ''id-1'' \<and>
   save_search_result sample_database [] sample_data = (None, [])"
proof -
  have a: "db_insert_one sample_database (FullDocument sample_data) =
     Inl (DocumentTooLarge oversize_message)"
    and b: "db_insert_one sample_database (MinimalDocument (minimal_of sample_data)) =
     Inr ''id-1''"
    and c: "db_connect sample_database"
    by (simp_all add: sample_database_def)
  from oversized_not_recognised [OF c a oversize_message_text, of "[]"] a b
  show ?thesis by simp
qed

section \<open>Claims about the persisted totals\<close>

text \<open>
  C10. \<^verbatim>\<open>POST /api/search\<close> passes the aggregation's grand total as the
  total-comment argument of \<^verbatim>\<open>save_unified_data\<close>. Whenever the endpoint gets as far
  as saving, the document it hands to the database has \<^verbatim>\<open>total_comments\<close> equal to
  processed comments plus processed replies, \<^verbatim>\<open>grand_total\<close> equal to processed
  comments plus twice the processed replies, and \<^verbatim>\<open>duplicates_removed\<close> equal to
  processed comments plus processed replies minus the unique count, while the response
  reports the processed comments alone as its total; and when the database is connected
  and accepts the document, that document is the one added to the collection.
\<close>

theorem search_persists_grand_total:
  assumes q: "original_query = strip (get_or (rq_query data) '''')"
    and v: "queries = generate_query_variations cfg model original_query
              (Some (get_or (rq_num_variations data) 20))"
    and a: "agg = fetch_multiple_queries_aggregated cfg sv queries
              (Some (get_or (rq_target_comments data) 50000))"
    and s: "search cfg model sv db collection batch_id now data =
              (response, Some doc, collection')"
  shows "cd_total_comments doc =
           ar_total_processed_comments agg + ar_total_processed_replies agg \<and>
         cd_grand_total doc =
           ar_total_processed_comments agg + 2 * ar_total_processed_replies agg \<and>
         pi_duplicates_removed (cd_processing_info doc) =
           ar_total_processed_comments agg + ar_total_processed_replies agg -
           ar_unique_count agg \<and>
         (\<exists>r. response = HttpOk r \<and> sr_total_comments r = ar_total_processed_comments agg \<and>
              sr_unique_comments r = ar_unique_count agg) \<and>
         (db_connect db \<and>
            (\<exists>inserted_id. db_insert_one db (FullDocument (as_search_data doc)) = Inr inserted_id)
          \<longrightarrow> collection' = collection @ [FullDocument (as_search_data doc)])"
proof -
  from s obtain label where
    sv: "save_unified_data db collection batch_id now original_query (ar_videos agg)
           (ar_unique_comments agg) (ar_unique_count agg) (ar_total_processed_replies agg)
           (ar_grand_total agg) [''youtube'', ''reddit''] = (label, doc, collection')"
    and r: "\<exists>r. response = HttpOk r \<and> sr_total_comments r = ar_total_processed_comments agg \<and>
              sr_unique_comments r = ar_unique_count agg"
    unfolding search_def q [symmetric] Let_def
    by (auto simp: q v a split: prod.splits if_splits)
  have g: "ar_grand_total agg =
      ar_total_processed_comments agg + ar_total_processed_replies agg"
    unfolding a by (rule fetch_multiple_grand_total)
  note d = save_unified_data_document [OF sv]
  have p: "collection' = collection @ [FullDocument (as_search_data doc)]"
    if "db_connect db" "db_insert_one db (FullDocument (as_search_data doc)) = Inr i" for i
    using d(6) that by (simp add: save_search_result_def)
  from d(1,3,5) g r p show ?thesis by auto
qed

theorem search_persists_grand_total_witness:
  "map_option cd_total_comments
     (fst (snd (search default_config None replying_services accepting_database []
         ''ab12cd34'' ''2025-01-01T00:00:00'' sample_request))) = Some 4 \<and>
   map_option cd_grand_total
     (fst (snd (search default_config None replying_services accepting_database []
         ''ab12cd34'' ''2025-01-01T00:00:00'' sample_request))) = Some 6 \<and>
   map_option (\<lambda>d. pi_duplicates_removed (cd_processing_info d))
     (fst (snd (search default_config None replying_services accepting_database []
         ''ab12cd34'' ''2025-01-01T00:00:00'' sample_request))) = Some 3"
proof -
  from sample_search_saves obtain response doc collection' where
    s: "search default_config None replying_services accepting_database []
         ''ab12cd34'' ''2025-01-01T00:00:00'' sample_request =
        (response, Some doc, collection')"
    by (cases "search default_config None replying_services accepting_database []
         ''ab12cd34'' ''2025-01-01T00:00:00'' sample_request") auto
  have q: "''cats'' = strip (get_or (rq_query sample_request) '''')"
    by (simp add: sample_request_def get_or_def strip_defs)
  have v: "[''cats''] = generate_query_variations default_config None ''cats''
      (Some (get_or (rq_num_variations sample_request) 20))"
    by (simp add: generate_query_variations_def)
  have t: "get_or (rq_target_comments sample_request) 50000 = 50000"
    by (simp add: sample_request_def get_or_def)
  from search_persists_grand_total [OF q v refl s] sample_aggregation
  show ?thesis
    by (simp add: s t)
qed

end
